theory Spec2Isabelle
  imports
    Main
    "HOL-Library.Char_ord"
    "HOL-Library.List_Lexorder"
    "HOL-Library.Product_Lexorder"
    "HOL-Library.Word"
begin

section \<open>Python values\<close>

text \<open>
  A Python \<open>str\<close> is a sequence of code points. The model covers the strings whose code
  points lie below 256 (Latin-1), one \<open>char\<close> for each code point, so that \<open>of_char\<close>
  is Python's \<open>ord\<close> and the order of \<open>Char_ord\<close> with the lexicographic order
  on lists is Python's order on \<open>str\<close>. Python's \<open>int\<close> is \<open>int\<close>, a tuple of ints
  an \<open>int list\<close>, and \<open>bytes\<close> a list of 8-bit words.
\<close>

type_synonym bytes = "8 word list"

text \<open>
  The exceptions that the modelled code raises, and \<open>Unmodelled\<close>, which is no exception
  of the program: it marks a query text that the model of the query engine does not
  cover (see the Metadata Store).
\<close>

datatype error =
  ValueError string
| KeyError string
| TransportError string
| DecodeError string
| Unmodelled string

text \<open>
  \<open>str.isdigit\<close>: the characters of Numeric_Type Decimal or Digit. Below U+0100 these are
  the ten ASCII digits and the superscripts U+00B2, U+00B3 and U+00B9.
  \<open>str.isdecimal\<close> (Numeric_Type Decimal) holds there of the ASCII digits only.
\<close>

definition isdecimal :: "char \<Rightarrow> bool" where
  "isdecimal c = (48 \<le> (of_char c :: nat) \<and> (of_char c :: nat) \<le> 57)"

definition isdigit :: "char \<Rightarrow> bool" where
  "isdigit c = (isdecimal c \<or> (of_char c :: nat) = 178 \<or> (of_char c :: nat) = 179
                 \<or> (of_char c :: nat) = 185)"

definition digit_value :: "char \<Rightarrow> int" where
  "digit_value c = int (of_char c) - 48"

definition decimal_value :: "string \<Rightarrow> int" where
  "decimal_value num = foldl (\<lambda>a c. 10 * a + digit_value c) 0 num"

text \<open>\<open>str(n)\<close> of a natural number, for the text of an error message.\<close>

fun show_nat :: "nat \<Rightarrow> string" where
  "show_nat n =
     (if n < 10 then [''0123456789'' ! n]
      else show_nat (n div 10) @ [''0123456789'' ! (n mod 10)])"

declare show_nat.simps [simp del]

text \<open>
  \<open>int(num)\<close> for the strings both \<open>parse_version\<close> functions pass to it: non-empty and
  made of \<open>isdigit\<close> characters only. \<open>int\<close> first scans the decimal characters at the
  start of the string; when they are more than 4300, the default of
  \<open>sys.get_int_max_str_digits()\<close>, it raises the \<open>ValueError\<close> of the limit. Otherwise it
  returns the number when the whole string is decimal, and on any other character it
  raises \<open>ValueError\<close> with the \<open>repr\<close> of the string in the message.
\<close>

definition int_max_str_digits :: nat where
  "int_max_str_digits = 4300"

definition py_int :: "string \<Rightarrow> error + int" where
  "py_int num =
     (if int_max_str_digits < length (takeWhile isdecimal num)
      then Inl (ValueError (''Exceeds the limit (4300 digits) for integer string conversion: value has ''
                              @ show_nat (length (takeWhile isdecimal num))
                              @ '' digits; use sys.set_int_max_str_digits() to increase the limit''))
      else if num \<noteq> [] \<and> list_all isdecimal num then Inr (decimal_value num)
      else Inl (ValueError (''invalid literal for int() with base 10: '' @ [CHR 0x27] @ num @ [CHR 0x27])))"

text \<open>\<open>s.replace("-", ".")\<close> and \<open>s.split(".")\<close>; a split never returns the empty list.\<close>

definition replace_char :: "char \<Rightarrow> char \<Rightarrow> string \<Rightarrow> string" where
  "replace_char old new s = map (\<lambda>c. if c = old then new else c) s"

fun split_char :: "char \<Rightarrow> string \<Rightarrow> string list" where
  "split_char sep [] = [[]]"
| "split_char sep (c # cs) =
     (if c = sep then [] # split_char sep cs
      else (case split_char sep cs of
              [] \<Rightarrow> [[c]]
            | p # ps \<Rightarrow> (c # p) # ps))"

text \<open>A loop that appends one computed value for each element and stops at the first raise.\<close>

fun collect :: "('a \<Rightarrow> error + 'b) \<Rightarrow> 'a list \<Rightarrow> error + 'b list" where
  "collect f [] = Inr []"
| "collect f (x # xs) =
     (case f x of
        Inl e \<Rightarrow> Inl e
      | Inr y \<Rightarrow> (case collect f xs of Inl e \<Rightarrow> Inl e | Inr ys \<Rightarrow> Inr (y # ys)))"

section \<open>Version Pattern Evaluator\<close>

subsection \<open>\<open>dep_graph.py\<close>\<close>

text \<open>
  \<open>parse_version\<close> of \<open>dep_graph.py\<close>: in each segment, \<open>num\<close> joins every character
  \<open>c\<close> of the segment with \<open>c.isdigit()\<close>, wherever it stands.
\<close>

definition dep_graph_segment :: "string \<Rightarrow> error + int" where
  "dep_graph_segment p = (let num = filter isdigit p in if num \<noteq> [] then py_int num else Inr 0)"

definition dep_graph_parse_version :: "string \<Rightarrow> error + int list" where
  "dep_graph_parse_version ver =
     collect dep_graph_segment (split_char (CHR ''.'') (replace_char (CHR ''-'') (CHR ''.'') ver))"

text \<open>\<open>upper_bound.count("x")\<close>\<close>

definition count_char :: "char \<Rightarrow> string \<Rightarrow> nat" where
  "count_char c s = length (filter (\<lambda>d. d = c) s)"

text \<open>
  \<open>version_bound\<close>: the conditional expression evaluates \<open>parse_version\<close> only when
  \<open>n\<close> is not 0.
\<close>

definition version_bound :: "string \<Rightarrow> string \<Rightarrow> error + int list" where
  "version_bound version upper_bound =
     (let n = count_char (CHR ''x'') upper_bound in
      if n = 0 then Inr []
      else (case dep_graph_parse_version version of
              Inl e \<Rightarrow> Inl e
            | Inr t \<Rightarrow> Inr (take n (t @ replicate n 0))))"

subsection \<open>\<open>sync_conda_forge.py\<close>\<close>

text \<open>
  \<open>parse_version\<close> of \<open>sync_conda_forge.py\<close>: \<open>num\<close> is the run of \<open>isdigit\<close> characters
  at the start of the segment; the loop breaks at the first other character.
\<close>

definition sync_segment :: "string \<Rightarrow> error + int" where
  "sync_segment p = (let num = takeWhile isdigit p in if num \<noteq> [] then py_int num else Inr 0)"

definition sync_parse_version :: "string \<Rightarrow> error + int list" where
  "sync_parse_version ver =
     collect sync_segment (split_char (CHR ''.'') (replace_char (CHR ''-'') (CHR ''.'') ver))"

subsection \<open>The specification's \<open>parseVersion\<close>\<close>

text \<open>
  The wording of the specification: split on \<open>.\<close> and \<open>-\<close> as combined separators; each
  segment gives the number written by its leading maximal run of decimal digits, 0 when
  the run is empty.
\<close>

fun spec_split :: "string \<Rightarrow> string list" where
  "spec_split [] = [[]]"
| "spec_split (c # cs) =
     (if c = CHR ''.'' \<or> c = CHR ''-'' then [] # spec_split cs
      else (case spec_split cs of
              [] \<Rightarrow> [[c]]
            | p # ps \<Rightarrow> (c # p) # ps))"

definition spec_parseVersion :: "string \<Rightarrow> int list" where
  "spec_parseVersion s = map (\<lambda>seg. decimal_value (takeWhile isdecimal seg)) (spec_split s)"

text \<open>
  The wording of the specification for \<open>boundedPrefix\<close>: with \<open>n\<close> the number of
  placeholder tokens \<open>x\<close> in the pattern, the empty tuple when \<open>n\<close> is 0, and
  otherwise the first \<open>n\<close> elements of \<open>parseVersion(version)\<close>, padded with zeros.
\<close>

definition spec_boundedPrefix :: "string \<Rightarrow> string \<Rightarrow> int list" where
  "spec_boundedPrefix version pattern =
     (let n = length (filter (\<lambda>c. c = CHR ''x'') pattern) in
      if n = 0 then []
      else take n (spec_parseVersion version) @ replicate (n - length (spec_parseVersion version)) 0)"

section \<open>Graph Builder (\<open>gen_deps.py\<close>)\<close>

text \<open>
  A Python \<open>dict\<close> whose order of insertion matters (it is iterated or serialised) is an
  association list with distinct keys: \<open>map_of\<close> is the lookup, \<open>dict_set d k v\<close> is
  \<open>d[k] = v\<close> (the value replaced in place, a new key appended).
\<close>

fun dict_set :: "('k \<times> 'v) list \<Rightarrow> 'k \<Rightarrow> 'v \<Rightarrow> ('k \<times> 'v) list" where
  "dict_set [] k v = [(k, v)]"
| "dict_set (kv # d) k v = (if fst kv = k then (k, v) # d else kv # dict_set d k v)"

text \<open>
  The two shapes \<open>parse_run_export\<close> returns, with the \<open>kind\<close> that \<open>resolve_recipe\<close>
  adds: a \<open>pin_subpackage\<close> with name, exact flag and the two bounds (\<open>None\<close> when the pin
  has no such key), or a plain string with its name and text.
\<close>

datatype run_export =
  Pin "string option" bool "string option" "string option" string
| Spec "string option" string string

record pkg_output =
  out_name :: string
  out_version :: string
  out_build_string :: string
  out_host_deps :: "(string \<times> string) list"
  out_run_exports :: "run_export list"

record pkg_info =
  info_version :: string
  info_host_deps :: "(string \<times> string) list"
  info_run_exports :: "run_export list"

definition info_of :: "pkg_output \<Rightarrow> pkg_info" where
  "info_of pkg = \<lparr>info_version = out_version pkg, info_host_deps = out_host_deps pkg,
                   info_run_exports = out_run_exports pkg\<rparr>"

text \<open>The loop of \<open>main\<close> for \<open>--output json\<close>, over all the outputs of the renderer.\<close>

fun main_json_loop :: "pkg_output list \<Rightarrow> (string \<times> pkg_info) list \<Rightarrow> (string \<times> pkg_info) list" where
  "main_json_loop [] result = result"
| "main_json_loop (pkg # pkgs) result =
     (let name = out_name pkg in
      if map_of result name = None then main_json_loop pkgs (dict_set result name (info_of pkg))
      else main_json_loop pkgs result)"

definition main_json :: "pkg_output list \<Rightarrow> (string \<times> pkg_info) list" where
  "main_json all_pkgs = main_json_loop all_pkgs []"

section \<open>Metadata Store (\<open>dep_graph.py\<close>)\<close>

text \<open>
  The rows of the two Lance tables. The columns \<open>host_deps\<close> and \<open>run_exports\<close> hold JSON
  text; the model holds the value that \<open>json.loads\<close> gives back.
\<close>

record package_row =
  row_name :: string
  row_version :: string
  row_host_deps :: "(string \<times> string) list"
  row_run_exports :: "run_export list"

record edge_row =
  edge_src :: string
  edge_dst :: string
  edge_constraint :: string

definition build_graph :: "(string \<times> pkg_info) list \<Rightarrow> package_row list \<times> edge_row list" where
  "build_graph data =
     (map (\<lambda>(name, info). \<lparr>row_name = name, row_version = info_version info,
                             row_host_deps = info_host_deps info,
                             row_run_exports = info_run_exports info\<rparr>) data,
      concat (map (\<lambda>(name, info).
                map (\<lambda>(dep, c). \<lparr>edge_src = name, edge_dst = dep, edge_constraint = c\<rparr>)
                    (info_host_deps info)) data))"

text \<open>
  \<open>_all_nodes\<close>: a Python set of the package names and the edge destinations, turned into
  a list. The order in which a set is iterated is not specified; the model lists the
  names in the order of their first insertion.
\<close>

definition all_nodes :: "package_row list \<Rightarrow> edge_row list \<Rightarrow> string list" where
  "all_nodes packages_ds edges_ds = remdups (map row_name packages_ds @ map edge_dst edges_ds)"

text \<open>
  The texts of the three queries, as the f-strings of \<open>rdeps\<close>, \<open>deps\<close> and
  \<open>dep_chain_2hop\<close> build them: the name is pasted between two quotes.
\<close>

definition rdeps_pre :: string where
  "rdeps_pre = ''MATCH (p:Pkg)-[:DEP]->(d:Pkg) WHERE d.name = '' @ [CHR 0x27]"

definition rdeps_suf :: string where
  "rdeps_suf = [CHR 0x27] @ '' RETURN DISTINCT p.name''"

definition deps_pre :: string where
  "deps_pre = ''MATCH (p:Pkg)-[:DEP]->(d:Pkg) WHERE p.name = '' @ [CHR 0x27]"

definition deps_suf :: string where
  "deps_suf = [CHR 0x27] @ '' RETURN DISTINCT d.name''"

definition chain_pre :: string where
  "chain_pre = ''MATCH (p:Pkg)-[:DEP]->(d1:Pkg)-[:DEP]->(d2:Pkg) WHERE p.name = '' @ [CHR 0x27]"

definition chain_suf :: string where
  "chain_suf = [CHR 0x27] @ '' RETURN p.name, d1.name, d2.name''"

text \<open>
  Modelled from the spec: the engine that runs the Cypher text (\<open>lance_graph\<close>) is not
  among the sources. Section 4.3 describes the queries by the edges that exist between
  nodes: the pattern \<open>(p:Pkg)-[:DEP]->(d:Pkg)\<close> matches once for each row of the edge
  table whose \<open>src\<close> and \<open>dst\<close> are names of the node table that \<open>cypher\<close> passes
  (\<open>_all_nodes\<close>), and a two-edge pattern once for each pair of such rows that meet. The
  order of the result rows is the engine's; the model takes the order of the edge table.

  The model of the engine reads the query text. It recognises the three texts above where
  the characters between the two quotes form a plain string literal, without a quote and
  without a backslash, and answers with the columns that \<open>to_pydict\<close> gives. Any other
  text, such as the one written for a name that holds a quote, is another query: what the
  engine answers to it is not determined here, and the model returns \<open>Unmodelled\<close> with
  the text.
\<close>

definition match_dep :: "package_row list \<Rightarrow> edge_row list \<Rightarrow> edge_row list" where
  "match_dep packages_ds edges_ds =
     filter (\<lambda>e. edge_src e \<in> set (all_nodes packages_ds edges_ds)
                \<and> edge_dst e \<in> set (all_nodes packages_ds edges_ds)) edges_ds"

definition plain_char :: "char \<Rightarrow> bool" where
  "plain_char c = (c \<noteq> CHR 0x27 \<and> c \<noteq> CHR 0x5C)"

definition quoted_literal :: "string \<Rightarrow> string \<Rightarrow> string \<Rightarrow> string option" where
  "quoted_literal pre suf query_str =
     (if take (length pre) query_str = pre
      then (if dropWhile plain_char (drop (length pre) query_str) = suf
            then Some (takeWhile plain_char (drop (length pre) query_str))
            else None)
      else None)"

definition chain_rows :: "edge_row list \<Rightarrow> string \<Rightarrow> (string \<times> string \<times> string) list" where
  "chain_rows matched lit =
     concat (map (\<lambda>e1.
        map (\<lambda>e2. (edge_src e1, edge_dst e1, edge_dst e2))
            (filter (\<lambda>e2. edge_src e2 = edge_dst e1) matched))
        (filter (\<lambda>e1. edge_src e1 = lit) matched))"

definition cypher ::
  "string \<Rightarrow> package_row list \<Rightarrow> edge_row list \<Rightarrow> error + (string \<times> string list) list" where
  "cypher query_str packages_ds edges_ds =
     (case quoted_literal rdeps_pre rdeps_suf query_str of
        Some lit \<Rightarrow>
          Inr [(''p.name'',
                remdups (map edge_src (filter (\<lambda>e. edge_dst e = lit)
                                              (match_dep packages_ds edges_ds))))]
      | None \<Rightarrow>
          (case quoted_literal deps_pre deps_suf query_str of
             Some lit \<Rightarrow>
               Inr [(''d.name'',
                     remdups (map edge_dst (filter (\<lambda>e. edge_src e = lit)
                                                   (match_dep packages_ds edges_ds))))]
           | None \<Rightarrow>
               (case quoted_literal chain_pre chain_suf query_str of
                  Some lit \<Rightarrow>
                    Inr [(''p.name'', map fst (chain_rows (match_dep packages_ds edges_ds) lit)),
                         (''d1.name'',
                          map (\<lambda>t. fst (snd t)) (chain_rows (match_dep packages_ds edges_ds) lit)),
                         (''d2.name'',
                          map (\<lambda>t. snd (snd t)) (chain_rows (match_dep packages_ds edges_ds) lit))]
                | None \<Rightarrow> Inl (Unmodelled query_str))))"

text \<open>\<open>result["col"]\<close>: the column of the result table.\<close>

definition column :: "(string \<times> string list) list \<Rightarrow> string \<Rightarrow> error + string list" where
  "column result col = (case map_of result col of None \<Rightarrow> Inl (KeyError col) | Some vs \<Rightarrow> Inr vs)"

text \<open>\<open>rdeps\<close> and \<open>deps\<close>: the query with \<open>RETURN DISTINCT\<close>, then \<open>sorted\<close>.\<close>

definition rdeps :: "package_row list \<Rightarrow> edge_row list \<Rightarrow> string \<Rightarrow> error + string list" where
  "rdeps packages_ds edges_ds name =
     (case cypher (rdeps_pre @ name @ rdeps_suf) packages_ds edges_ds of
        Inl e \<Rightarrow> Inl e
      | Inr result \<Rightarrow>
          (case column result ''p.name'' of Inl e \<Rightarrow> Inl e | Inr vs \<Rightarrow> Inr (sort vs)))"

definition deps :: "package_row list \<Rightarrow> edge_row list \<Rightarrow> string \<Rightarrow> error + string list" where
  "deps packages_ds edges_ds name =
     (case cypher (deps_pre @ name @ deps_suf) packages_ds edges_ds of
        Inl e \<Rightarrow> Inl e
      | Inr result \<Rightarrow>
          (case column result ''d.name'' of Inl e \<Rightarrow> Inl e | Inr vs \<Rightarrow> Inr (sort vs)))"

text \<open>\<open>zip(a, b, c, strict=True)\<close>, with the \<open>ValueError\<close> of lists of different lengths.\<close>

fun zip_strict :: "'a list \<Rightarrow> 'b list \<Rightarrow> 'c list \<Rightarrow> error + ('a \<times> 'b \<times> 'c) list" where
  "zip_strict [] [] [] = Inr []"
| "zip_strict [] (b # bs) cs = Inl (ValueError ''zip() argument 2 is longer than argument 1'')"
| "zip_strict [] [] (c # cs) = Inl (ValueError ''zip() argument 3 is longer than arguments 1-2'')"
| "zip_strict (a # as) [] cs = Inl (ValueError ''zip() argument 2 is shorter than argument 1'')"
| "zip_strict (a # as) (b # bs) [] =
     Inl (ValueError ''zip() argument 3 is shorter than arguments 1-2'')"
| "zip_strict (a # as) (b # bs) (c # cs) =
     (case zip_strict as bs cs of Inl e \<Rightarrow> Inl e | Inr ts \<Rightarrow> Inr ((a, b, c) # ts))"

text \<open>
  \<open>dep_chain_2hop\<close>: the rows as the engine returns them, without \<open>DISTINCT\<close> and without
  \<open>sorted\<close>, zipped into triples.
\<close>

definition dep_chain_2hop ::
  "package_row list \<Rightarrow> edge_row list \<Rightarrow> string \<Rightarrow> error + (string \<times> string \<times> string) list" where
  "dep_chain_2hop packages_ds edges_ds name =
     (case cypher (chain_pre @ name @ chain_suf) packages_ds edges_ds of
        Inl e \<Rightarrow> Inl e
      | Inr d \<Rightarrow>
          (case column d ''p.name'' of
             Inl e \<Rightarrow> Inl e
           | Inr ps \<Rightarrow>
               (case column d ''d1.name'' of
                  Inl e \<Rightarrow> Inl e
                | Inr d1s \<Rightarrow>
                    (case column d ''d2.name'' of
                       Inl e \<Rightarrow> Inl e
                     | Inr d2s \<Rightarrow> zip_strict ps d1s d2s))))"

section \<open>Rebuild Analyzer (\<open>dep_graph.py\<close>)\<close>

text \<open>
  An entry of the upstream snapshot, as \<open>extract_latest_from_shard\<close> writes it. An entry
  without the key \<open>version\<close> behaves in \<open>check_rebuilds\<close> as one with the empty string,
  the default of \<open>get\<close>.
\<close>

record snapshot_entry =
  entry_version :: string
  entry_build_number :: int
  entry_build :: string
  entry_depends :: "string list"

type_synonym snapshot = "(string \<times> snapshot_entry) list"

type_synonym trigger = "string \<times> string \<times> string"

text \<open>\<open>exp.get("upper_bound", "")\<close>; \<open>None\<close> is the JSON \<open>null\<close> of a pin without the key.\<close>

fun get_upper_bound :: "run_export \<Rightarrow> string option" where
  "get_upper_bound (Pin n exact lb ub kind) = ub"
| "get_upper_bound (Spec n spec kind) = Some []"

definition reason_text :: "string \<Rightarrow> string \<Rightarrow> string \<Rightarrow> string \<Rightarrow> string" where
  "reason_text name local_ver upstream_ver ub =
     name @ '' '' @ local_ver @ '' -> '' @ upstream_ver @ '' (ub='' @ ub @ '')''"

text \<open>The loop over the reverse dependencies, on the state \<open>(rebuilds, seen)\<close>.\<close>

fun emit_triggers ::
  "string \<Rightarrow> string \<Rightarrow> string list \<Rightarrow> trigger list \<times> (string \<times> string) set
    \<Rightarrow> trigger list \<times> (string \<times> string) set" where
  "emit_triggers name reason [] st = st"
| "emit_triggers name reason (dep # ds) st =
     (if (dep, name) \<notin> snd st
      then emit_triggers name reason ds (fst st @ [(dep, name, reason)], insert (dep, name) (snd st))
      else emit_triggers name reason ds st)"

text \<open>
  The loop over the export rules of one package. \<open>version_bound\<close> is evaluated for the
  local version first; a \<open>ValueError\<close> of either call leaves \<open>check_rebuilds\<close>, and so
  does what \<open>rdeps\<close> raises.
\<close>

fun check_exports ::
  "package_row list \<Rightarrow> edge_row list \<Rightarrow> string \<Rightarrow> string \<Rightarrow> string \<Rightarrow> run_export list
    \<Rightarrow> trigger list \<times> (string \<times> string) set
    \<Rightarrow> error + trigger list \<times> (string \<times> string) set" where
  "check_exports packages_ds edges_ds name local_ver upstream_ver [] st = Inr st"
| "check_exports packages_ds edges_ds name local_ver upstream_ver (exp # exps) st =
     (case get_upper_bound exp of
        None \<Rightarrow> check_exports packages_ds edges_ds name local_ver upstream_ver exps st
      | Some ub \<Rightarrow>
          if ub = [] then check_exports packages_ds edges_ds name local_ver upstream_ver exps st
          else (case version_bound local_ver ub of
                  Inl e \<Rightarrow> Inl e
                | Inr a \<Rightarrow>
                    (case version_bound upstream_ver ub of
                       Inl e \<Rightarrow> Inl e
                     | Inr b \<Rightarrow>
                         if a = b
                         then check_exports packages_ds edges_ds name local_ver upstream_ver exps st
                         else (case rdeps packages_ds edges_ds name of
                                 Inl e \<Rightarrow> Inl e
                               | Inr ds \<Rightarrow>
                                   check_exports packages_ds edges_ds name local_ver upstream_ver
                                     exps
                                     (emit_triggers name
                                        (reason_text name local_ver upstream_ver ub) ds st)))))"

text \<open>The loop over the rows of the packages table.\<close>

fun check_packages ::
  "package_row list \<Rightarrow> edge_row list \<Rightarrow> snapshot \<Rightarrow> package_row list
    \<Rightarrow> trigger list \<times> (string \<times> string) set
    \<Rightarrow> error + trigger list \<times> (string \<times> string) set" where
  "check_packages packages_ds edges_ds upstream [] st = Inr st"
| "check_packages packages_ds edges_ds upstream (row # rows) st =
     (case map_of upstream (row_name row) of
        None \<Rightarrow> check_packages packages_ds edges_ds upstream rows st
      | Some entry \<Rightarrow>
          if row_run_exports row = [] then check_packages packages_ds edges_ds upstream rows st
          else if entry_version entry = [] \<or> row_version row = entry_version entry
          then check_packages packages_ds edges_ds upstream rows st
          else (case check_exports packages_ds edges_ds (row_name row) (row_version row)
                       (entry_version entry) (row_run_exports row) st of
                  Inl e \<Rightarrow> Inl e
                | Inr st' \<Rightarrow> check_packages packages_ds edges_ds upstream rows st'))"

text \<open>
  \<open>check_rebuilds\<close>. Without the argument \<open>upstream\<close> the snapshot is read from the file
  \<open>deps.json\<close> (\<open>cache\<close>, \<open>None\<close> when the file does not exist).
\<close>

definition load_upstream :: "snapshot option \<Rightarrow> snapshot option \<Rightarrow> snapshot" where
  "load_upstream upstream cache =
     (case upstream of
        Some u \<Rightarrow> u
      | None \<Rightarrow> (case cache of Some c \<Rightarrow> c | None \<Rightarrow> []))"

definition check_rebuilds ::
  "package_row list \<Rightarrow> edge_row list \<Rightarrow> snapshot option \<Rightarrow> snapshot option
    \<Rightarrow> error + trigger list" where
  "check_rebuilds packages_ds edges_ds upstream cache =
     (case check_packages packages_ds edges_ds (load_upstream upstream cache) packages_ds ([], {}) of
        Inl e \<Rightarrow> Inl e
      | Inr st \<Rightarrow> Inr (sort (fst st)))"

subsection \<open>Notions used to state the properties of \<open>check_rebuilds\<close>\<close>

text \<open>The pair \<open>(dependent, package)\<close> of a trigger, the key of \<open>seen\<close>.\<close>

definition pair_of :: "trigger \<Rightarrow> string \<times> string" where
  "pair_of t = (fst t, fst (snd t))"

text \<open>The list that \<open>rdeps\<close> returns, empty where it raises.\<close>

definition rdeps_list :: "package_row list \<Rightarrow> edge_row list \<Rightarrow> string \<Rightarrow> string list" where
  "rdeps_list packages_ds edges_ds name =
     (case rdeps packages_ds edges_ds name of Inl e \<Rightarrow> [] | Inr ds \<Rightarrow> ds)"

text \<open>
  An export rule fires for a pair of versions when its pattern is a non-empty string and
  the two bounds differ; a row fires when it has an upstream entry with a non-empty
  version other than the local one and one of its export rules fires.
\<close>

definition export_fires :: "string \<Rightarrow> string \<Rightarrow> run_export \<Rightarrow> bool" where
  "export_fires local_ver upstream_ver exp =
     (case get_upper_bound exp of
        None \<Rightarrow> False
      | Some ub \<Rightarrow> ub \<noteq> [] \<and> version_bound local_ver ub \<noteq> version_bound upstream_ver ub)"

definition row_fires :: "snapshot \<Rightarrow> package_row \<Rightarrow> bool" where
  "row_fires upstream row =
     (case map_of upstream (row_name row) of
        None \<Rightarrow> False
      | Some entry \<Rightarrow>
          entry_version entry \<noteq> [] \<and> row_version row \<noteq> entry_version entry
          \<and> list_ex (export_fires (row_version row) (entry_version entry)) (row_run_exports row))"

text \<open>The invariant of the loops: \<open>seen\<close> holds the pairs of \<open>rebuilds\<close>, each once.\<close>

definition tr_inv :: "trigger list \<times> (string \<times> string) set \<Rightarrow> bool" where
  "tr_inv st = (snd st = pair_of ` set (fst st) \<and> distinct (map pair_of (fst st)))"

section \<open>Shard Cache (\<open>sync_conda_forge.py\<close>)\<close>

text \<open>\<open>bytes.hex()\<close>: two lower-case hexadecimal digits for each byte.\<close>

definition hex_digit :: "nat \<Rightarrow> char" where
  "hex_digit n = ''0123456789abcdef'' ! (n mod 16)"

definition hex_byte :: "8 word \<Rightarrow> string" where
  "hex_byte b = [hex_digit (unat b div 16), hex_digit (unat b mod 16)]"

definition hex :: "bytes \<Rightarrow> string" where
  "hex bs = concat (map hex_byte bs)"

text \<open>
  The shards index as \<open>main\<close> reads it: \<open>index.get("shards", {})\<close> and
  \<open>index.get("info", {}).get("shards_base_url", "")\<close>.
\<close>

record shards_index =
  index_shards :: "(string \<times> bytes) list"
  index_base_url :: string

definition CHANNEL_URL :: string where
  "CHANNEL_URL = ''https://conda.anaconda.org/conda-forge/linux-64''"

definition get_shard_url :: "string \<Rightarrow> bytes \<Rightarrow> string" where
  "get_shard_url base_url shard_hash =
     (if base_url \<noteq> [] then base_url @ hex shard_hash @ ''.msgpack.zst''
      else CHANNEL_URL @ ''/'' @ hex shard_hash @ ''.msgpack.zst'')"

text \<open>
  One entry of a shard: the four keys that \<open>extract_latest_from_shard\<close> reads, each
  \<open>None\<close> when the key is absent, and whether the entry holds any other key (an entry
  with no key at all is a false value in Python).
\<close>

record shard_entry =
  se_version :: "string option"
  se_build_number :: "int option"
  se_build :: "string option"
  se_depends :: "string list option"
  se_other_keys :: bool

record shard =
  shard_packages :: "(string \<times> shard_entry) list"
  shard_packages_conda :: "(string \<times> shard_entry) list"

text \<open>
  What lies outside the program: the answer of the network to a GET of a URL
  (\<open>urlopen(url).read()\<close>, which may raise), \<open>hashlib.sha256(data).digest()\<close>, and
  \<open>msgpack.unpackb(zstandard.decompress(data))\<close>, which may raise.
\<close>

record remote =
  fetch :: "string \<Rightarrow> error + bytes"
  sha256 :: "bytes \<Rightarrow> bytes"
  unpack :: "bytes \<Rightarrow> error + shard"

text \<open>
  The local durable state: whether the directory \<open>shards\<close> exists, its files by name,
  and the content of \<open>deps.json\<close> and \<open>tracked_hashes.json\<close> (\<open>None\<close> when the file
  does not exist). A JSON file is held as the value that \<open>json.loads\<close> returns for it;
  \<open>json.dumps\<close> writes equal values, in the order of their keys, as the same text.
\<close>

record disk =
  shards_dir :: bool
  shard_files :: "string \<rightharpoonup> bytes"
  deps_cache :: "snapshot option"
  tracked_hashes :: "(string \<times> string) list option"

definition cache_file_name :: "bytes \<Rightarrow> string" where
  "cache_file_name shard_hash = hex shard_hash @ ''.msgpack.zst''"

definition download_shard :: "remote \<Rightarrow> string \<Rightarrow> bytes \<Rightarrow> disk \<Rightarrow> (error + shard) \<times> disk" where
  "download_shard r url shard_hash d =
     (let d1 = d\<lparr>shards_dir := True\<rparr>;
          hash_hex = hex shard_hash;
          cache_file = cache_file_name shard_hash
      in case shard_files d1 cache_file of
           Some cached \<Rightarrow> (unpack r cached, d1)
         | None \<Rightarrow>
             (case fetch r url of
                Inl e \<Rightarrow> (Inl e, d1)
              | Inr data \<Rightarrow>
                  let actual_hash = sha256 r data in
                  if actual_hash \<noteq> shard_hash
                  then (Inl (ValueError (''Hash mismatch: expected '' @ hash_hex @ '', got ''
                                          @ hex actual_hash)), d1)
                  else (unpack r data,
                        d1\<lparr>shard_files := (shard_files d1)(cache_file \<mapsto> data)\<rparr>)))"

text \<open>\<open>packages.update(other)\<close>\<close>

definition dict_update :: "('k \<times> 'v) list \<Rightarrow> ('k \<times> 'v) list \<Rightarrow> ('k \<times> 'v) list" where
  "dict_update d other = foldl (\<lambda>acc kv. dict_set acc (fst kv) (snd kv)) d other"

text \<open>The loop of \<open>extract_latest_from_shard\<close>, on the state \<open>(latest, latest_key)\<close>.\<close>

fun latest_loop ::
  "shard_entry list \<Rightarrow> shard_entry option \<times> (int list \<times> int)
    \<Rightarrow> error + shard_entry option \<times> (int list \<times> int)" where
  "latest_loop [] st = Inr st"
| "latest_loop (info # infos) st =
     (case sync_parse_version (case se_version info of None \<Rightarrow> [] | Some ver \<Rightarrow> ver) of
        Inl e \<Rightarrow> Inl e
      | Inr pv \<Rightarrow>
          let key = (pv, (case se_build_number info of None \<Rightarrow> 0 | Some bn \<Rightarrow> bn)) in
          if snd st < key then latest_loop infos (Some info, key)
          else latest_loop infos st)"

definition entry_is_empty :: "shard_entry \<Rightarrow> bool" where
  "entry_is_empty info =
     (se_version info = None \<and> se_build_number info = None \<and> se_build info = None
      \<and> se_depends info = None \<and> \<not> se_other_keys info)"

definition extract_latest_from_shard :: "shard \<Rightarrow> error + snapshot_entry option" where
  "extract_latest_from_shard s =
     (let packages = dict_update (shard_packages s) (shard_packages_conda s) in
      if packages = [] then Inr None
      else (case latest_loop (map snd packages) (None, ([], 0)) of
              Inl e \<Rightarrow> Inl e
            | Inr st \<Rightarrow>
                (case fst st of
                   None \<Rightarrow> Inr None
                 | Some latest \<Rightarrow>
                     if entry_is_empty latest then Inr None
                     else Inr (Some \<lparr>
                       entry_version = (case se_version latest of None \<Rightarrow> [] | Some v \<Rightarrow> v),
                       entry_build_number = (case se_build_number latest of None \<Rightarrow> 0 | Some bn \<Rightarrow> bn),
                       entry_build = (case se_build latest of None \<Rightarrow> [] | Some b \<Rightarrow> b),
                       entry_depends = (case se_depends latest of None \<Rightarrow> [] | Some ds \<Rightarrow> ds)\<rparr>))))"

definition find_updates :: "snapshot \<Rightarrow> snapshot \<Rightarrow> (string \<times> string \<times> string) list" where
  "find_updates old_deps new_deps =
     map (\<lambda>kv. (fst kv,
                 (case map_of old_deps (fst kv) of None \<Rightarrow> ''(new)'' | Some e \<Rightarrow> entry_version e),
                 entry_version (snd kv)))
       (filter (\<lambda>kv. (case map_of old_deps (fst kv) of None \<Rightarrow> ''(new)'' | Some e \<Rightarrow> entry_version e)
                       \<noteq> entry_version (snd kv)) new_deps)"

text \<open>
  The loop of \<open>main\<close> that determines which shards need fetching, on the four
  variables it updates.
\<close>

record diff =
  new_hashes :: "(string \<times> string) list"
  missing :: "string list"
  changed :: "string list"
  unchanged :: nat

fun classify ::
  "(string \<times> bytes) list \<Rightarrow> (string \<times> string) list \<Rightarrow> snapshot \<Rightarrow> string list \<Rightarrow> diff \<Rightarrow> diff" where
  "classify shards_map old_hashes old_deps [] acc = acc"
| "classify shards_map old_hashes old_deps (name # names) acc =
     (case map_of shards_map name of
        None \<Rightarrow> classify shards_map old_hashes old_deps names (acc\<lparr>missing := missing acc @ [name]\<rparr>)
      | Some shard_hash \<Rightarrow>
          let hash_hex = hex shard_hash;
              acc1 = acc\<lparr>new_hashes := dict_set (new_hashes acc) name hash_hex\<rparr>
          in if map_of old_hashes name = Some hash_hex \<and> map_of old_deps name \<noteq> None
             then classify shards_map old_hashes old_deps names (acc1\<lparr>unchanged := unchanged acc1 + 1\<rparr>)
             else classify shards_map old_hashes old_deps names (acc1\<lparr>changed := changed acc1 @ [name]\<rparr>))"

definition empty_diff :: diff where
  "empty_diff = \<lparr>new_hashes = [], missing = [], changed = [], unchanged = 0\<rparr>"

text \<open>
  The loop of \<open>main\<close> that downloads the changed shards, on \<open>new_deps\<close> and the disk.
  \<open>shards_map[name]\<close> stands before the \<open>try\<close>; whatever is raised inside the \<open>try\<close> is
  printed and the loop goes on.
\<close>

fun fetch_changed ::
  "remote \<Rightarrow> shards_index \<Rightarrow> string list \<Rightarrow> snapshot \<times> disk \<Rightarrow> error + snapshot \<times> disk" where
  "fetch_changed r idx [] st = Inr st"
| "fetch_changed r idx (name # names) st =
     (case map_of (index_shards idx) name of
        None \<Rightarrow> Inl (KeyError name)
      | Some shard_hash \<Rightarrow>
          let url = get_shard_url (index_base_url idx) shard_hash;
              res = download_shard r url shard_hash (snd st)
          in (case fst res of
                Inl e \<Rightarrow> fetch_changed r idx names (fst st, snd res)
              | Inr sh \<Rightarrow>
                  (case extract_latest_from_shard sh of
                     Inl e \<Rightarrow> fetch_changed r idx names (fst st, snd res)
                   | Inr None \<Rightarrow> fetch_changed r idx names (fst st, snd res)
                   | Inr (Some info) \<Rightarrow>
                       fetch_changed r idx names (dict_set (fst st) name info, snd res))))"

text \<open>
  \<open>main\<close>. The arguments are those of the command line; \<open>local_host_deps\<close> is what
  \<open>get_local_host_deps\<close> returns and \<open>idx\<close> what \<open>download_shards_index\<close> returns (its own
  cache files are not part of \<open>disk\<close>). \<open>sorted(package_names)\<close> of the set of the names
  is \<open>sort (remdups names)\<close>. The model returns, with the disk, the values of the
  variables \<open>changed\<close>, \<open>unchanged\<close>, \<open>missing\<close> and \<open>updates\<close> that \<open>main\<close> prints; when
  there is no package to sync nothing has been classified and they are empty.
\<close>

record args =
  arg_packages :: "string list"
  arg_check :: bool
  arg_list_changed :: bool
  arg_force :: bool

record report =
  rep_changed :: "string list"
  rep_unchanged :: nat
  rep_missing :: "string list"
  rep_updates :: "(string \<times> string \<times> string) list"

definition tracked_names :: "args \<Rightarrow> string list \<Rightarrow> string list" where
  "tracked_names a local_host_deps =
     sort (remdups (if arg_packages a \<noteq> [] then arg_packages a else local_host_deps))"

definition load_deps :: "disk \<Rightarrow> snapshot" where
  "load_deps d = (case deps_cache d of None \<Rightarrow> [] | Some old_deps \<Rightarrow> old_deps)"

definition load_hashes :: "disk \<Rightarrow> (string \<times> string) list" where
  "load_hashes d = (case tracked_hashes d of None \<Rightarrow> [] | Some old_hashes \<Rightarrow> old_hashes)"

definition main :: "remote \<Rightarrow> string list \<Rightarrow> shards_index \<Rightarrow> args \<Rightarrow> disk \<Rightarrow> error + report \<times> disk" where
  "main r local_host_deps idx a d =
     (let package_names = tracked_names a local_host_deps in
      if package_names = []
      then Inr (\<lparr>rep_changed = [], rep_unchanged = 0, rep_missing = [], rep_updates = []\<rparr>, d)
      else
        let old_deps = load_deps d;
            old_hashes = load_hashes d;
            df = classify (index_shards idx) old_hashes old_deps package_names empty_diff
        in if arg_list_changed a
           then Inr (\<lparr>rep_changed = changed df, rep_unchanged = unchanged df,
                      rep_missing = missing df, rep_updates = []\<rparr>, d)
           else (case fetch_changed r idx (changed df) (old_deps, d) of
                   Inl e \<Rightarrow> Inl e
                 | Inr st \<Rightarrow>
                     let new_deps = fst st;
                         rep = \<lparr>rep_changed = changed df, rep_unchanged = unchanged df,
                                rep_missing = missing df,
                                rep_updates = find_updates old_deps new_deps\<rparr>
                     in if arg_check a then Inr (rep, snd st)
                        else Inr (rep, (snd st)\<lparr>deps_cache := Some new_deps,
                                                tracked_hashes := Some (new_hashes df)\<rparr>)))"

subsection \<open>Notions used to state the properties of the classification\<close>

text \<open>The two conditions on a name that is in the shard map, as the loop tests them.\<close>

definition is_unchanged ::
  "(string \<times> bytes) list \<Rightarrow> (string \<times> string) list \<Rightarrow> snapshot \<Rightarrow> string \<Rightarrow> bool" where
  "is_unchanged shards_map old_hashes old_deps name =
     (case map_of shards_map name of
        None \<Rightarrow> False
      | Some shard_hash \<Rightarrow>
          map_of old_hashes name = Some (hex shard_hash) \<and> map_of old_deps name \<noteq> None)"

definition is_changed ::
  "(string \<times> bytes) list \<Rightarrow> (string \<times> string) list \<Rightarrow> snapshot \<Rightarrow> string \<Rightarrow> bool" where
  "is_changed shards_map old_hashes old_deps name =
     (case map_of shards_map name of
        None \<Rightarrow> False
      | Some shard_hash \<Rightarrow>
          \<not> (map_of old_hashes name = Some (hex shard_hash) \<and> map_of old_deps name \<noteq> None))"

subsection \<open>Notions used in the proofs about two runs of \<open>main\<close>\<close>

text \<open>
  The entry that one pass of the download loop obtains for a hash on a given disk
  (\<open>None\<close> when the download, the decoding or the extraction raises, or when the shard
  gives no entry), the step of the loop on \<open>new_deps\<close> written with it, and the relation
  of a disk to a later one whose new shard files are verified downloads.
\<close>

definition entry_of :: "remote \<Rightarrow> string \<Rightarrow> disk \<Rightarrow> bytes \<Rightarrow> snapshot_entry option" where
  "entry_of r base d h =
     (case fst (download_shard r (get_shard_url base h) h d) of
        Inl e \<Rightarrow> None
      | Inr sh \<Rightarrow> (case extract_latest_from_shard sh of Inl e \<Rightarrow> None | Inr x \<Rightarrow> x))"

definition merge_entry :: "remote \<Rightarrow> shards_index \<Rightarrow> disk \<Rightarrow> snapshot \<Rightarrow> string \<Rightarrow> snapshot" where
  "merge_entry r idx d0 nd n =
     (case map_of (index_shards idx) n of
        None \<Rightarrow> nd
      | Some h \<Rightarrow>
          (case entry_of r (index_base_url idx) d0 h of
             None \<Rightarrow> nd
           | Some info \<Rightarrow> dict_set nd n info))"

text \<open>
  The entry that the download loop obtains for a tracked name: that of the shard of the
  name's hash in the index, none for a name that the index does not list.
\<close>

definition fetched_entry :: "remote \<Rightarrow> shards_index \<Rightarrow> disk \<Rightarrow> string \<Rightarrow> snapshot_entry option" where
  "fetched_entry r idx d n =
     (case map_of (index_shards idx) n of
        None \<Rightarrow> None
      | Some h \<Rightarrow> entry_of r (index_base_url idx) d h)"

definition cache_extends :: "remote \<Rightarrow> string \<Rightarrow> disk \<Rightarrow> disk \<Rightarrow> bool" where
  "cache_extends r base d0 d =
     (\<forall>h. shard_files d (cache_file_name h) = shard_files d0 (cache_file_name h)
        \<or> (shard_files d0 (cache_file_name h) = None
            \<and> (\<exists>data. fetch r (get_shard_url base h) = Inr data \<and> sha256 r data = h
                  \<and> shard_files d (cache_file_name h) = Some data)))"

section \<open>Example data\<close>

text \<open>Two packages \<open>C\<close> and \<open>A\<close> that link against \<open>B\<close>, which has two export rules.\<close>

definition wit_data :: "(string \<times> pkg_info) list" where
  "wit_data =
     [(''C'', \<lparr>info_version = ''3'', info_host_deps = [(''B'', ''>=1'')], info_run_exports = []\<rparr>),
      (''A'', \<lparr>info_version = ''0.1'', info_host_deps = [(''B'', '''')], info_run_exports = []\<rparr>),
      (''B'', \<lparr>info_version = ''1.2.0'', info_host_deps = [],
               info_run_exports = [Pin (Some ''B'') False None (Some ''x.x'') ''weak'',
                                   Pin (Some ''B'') False None (Some ''x'') ''strong'']\<rparr>)]"

text \<open>
  An index that lists \<open>zlib\<close>, a full sync of that one name, an empty disk, and an
  upstream that serves one shard under the hash of the index.
\<close>

definition ex_index :: shards_index where
  "ex_index = \<lparr>index_shards = [(''zlib'', [0xAB])], index_base_url = ''''\<rparr>"

definition ex_args :: args where
  "ex_args = \<lparr>arg_packages = [''zlib''], arg_check = False, arg_list_changed = False,
              arg_force = False\<rparr>"

definition ex_args_missing :: args where
  "ex_args_missing = \<lparr>arg_packages = [''nothere'', ''zlib''], arg_check = False,
                      arg_list_changed = False, arg_force = False\<rparr>"

definition ex_disk :: disk where
  "ex_disk = \<lparr>shards_dir = False, shard_files = Map.empty, deps_cache = None,
              tracked_hashes = None\<rparr>"

definition ex_remote :: "shard \<Rightarrow> remote" where
  "ex_remote sh =
     \<lparr>fetch = (\<lambda>url. if url = ''https://conda.anaconda.org/conda-forge/linux-64/ab.msgpack.zst''
                       then Inr [1] else Inl (TransportError ''HTTP Error 404'')),
      sha256 = (\<lambda>data. if data = [1] then [0xAB] else []),
      unpack = (\<lambda>data. if data = [1] then Inr sh else Inl (DecodeError ''zstd''))\<rparr>"

definition ex_shard :: shard where
  "ex_shard = \<lparr>shard_packages = [],
               shard_packages_conda =
                 [(''zlib-1.3-h0.conda'',
                   \<lparr>se_version = Some ''1.3'', se_build_number = Some 0, se_build = Some ''h0'',
                    se_depends = Some [], se_other_keys = True\<rparr>)]\<rparr>"



section \<open>Properties of the Version Pattern Evaluator\<close>

lemmas version_eval_defs =
  dep_graph_parse_version_def dep_graph_segment_def sync_parse_version_def sync_segment_def
  replace_char_def py_int_def int_max_str_digits_def isdigit_def isdecimal_def decimal_value_def digit_value_def
  count_char_def version_bound_def

lemma split_char_not_Nil: "split_char sep s \<noteq> []"
  by (induction s) (auto split: list.splits)

lemma split_replace_spec:
  "split_char (CHR ''.'') (replace_char (CHR ''-'') (CHR ''.'') s) = spec_split s"
  by (induction s) (auto simp: replace_char_def split: list.splits)

lemma spec_split_concat: "set (concat (spec_split s)) \<subseteq> set s"
proof (induction s)
  case Nil
  show ?case by simp
next
  case (Cons c cs)
  show ?case
  proof (cases "spec_split cs")
    case Nil
    then show ?thesis by simp
  next
    case (Cons p ps)
    with Cons.IH have "set p \<union> set (concat ps) \<subseteq> set cs" by simp
    with Cons show ?thesis by auto
  qed
qed

lemma spec_split_chars: "seg \<in> set (spec_split s) \<Longrightarrow> set seg \<subseteq> set s"
  using spec_split_concat [of s] by auto

lemma collect_total:
  "(\<And>x. x \<in> set xs \<Longrightarrow> f x = Inr (g x)) \<Longrightarrow> collect f xs = Inr (map g xs)"
  by (induction xs) auto

lemma takeWhile_isdigit_decimal:
  "\<forall>c\<in>set seg. isdigit c \<longrightarrow> isdecimal c \<Longrightarrow>
   takeWhile isdigit seg = takeWhile isdecimal seg"
  by (induction seg) (auto simp: isdigit_def)

lemma list_all_takeWhile: "list_all P (takeWhile P xs)"
  by (induction xs) auto

lemma decimal_value_Nil: "decimal_value [] = 0"
  by (simp add: decimal_value_def)

lemma sync_segment_spec:
  assumes "\<And>c. c \<in> set seg \<Longrightarrow> isdigit c \<Longrightarrow> isdecimal c"
    and "length (takeWhile isdecimal seg) \<le> int_max_str_digits"
  shows "sync_segment seg = Inr (decimal_value (takeWhile isdecimal seg))"
proof -
  have "takeWhile isdigit seg = takeWhile isdecimal seg"
    using assms(1) by (intro takeWhile_isdigit_decimal) blast
  moreover have "takeWhile isdecimal (takeWhile isdecimal seg) = takeWhile isdecimal seg"
    by (simp add: takeWhile_idem)
  ultimately show ?thesis
    using assms(2)
    by (simp add: sync_segment_def Let_def py_int_def list_all_takeWhile decimal_value_Nil)
qed

text \<open>
  On the strings whose \<open>isdigit\<close> characters are decimal and whose segments start with at
  most 4300 digits, the \<open>parse_version\<close> of \<open>sync_conda_forge.py\<close> is the
  \<open>parseVersion\<close> of the specification.
\<close>

lemma sync_parse_version_spec:
  assumes "\<And>c. c \<in> set s \<Longrightarrow> isdigit c \<Longrightarrow> isdecimal c"
    and "\<And>seg. seg \<in> set (spec_split s) \<Longrightarrow> length (takeWhile isdecimal seg) \<le> int_max_str_digits"
  shows "sync_parse_version s = Inr (spec_parseVersion s)"
proof -
  have "collect sync_segment (spec_split s)
        = Inr (map (\<lambda>seg. decimal_value (takeWhile isdecimal seg)) (spec_split s))"
  proof (rule collect_total)
    fix seg assume seg: "seg \<in> set (spec_split s)"
    then have "set seg \<subseteq> set s" by (rule spec_split_chars)
    then show "sync_segment seg = Inr (decimal_value (takeWhile isdecimal seg))"
      using assms(1) assms(2)[OF seg] by (intro sync_segment_spec) auto
  qed
  then show ?thesis
    by (simp add: sync_parse_version_def split_replace_spec spec_parseVersion_def)
qed

text \<open>
  C2. \<open>parseVersion\<close> maps each segment to its leading run of decimal digits, with
  \<open>parseVersion("2024-01-rc1") == (2024,1,0)\<close>. The \<open>parse_version\<close> of
  \<open>sync_conda_forge.py\<close> does so where \<open>int\<close> returns (lemma
  \<open>sync_parse_version_spec\<close>); the one of
  \<open>dep_graph.py\<close> joins all the digits of a segment and returns \<open>(2024,1,1)\<close>.
\<close>

theorem dep_graph_parse_version_all_digits:
  "dep_graph_parse_version ''2024-01-rc1'' = Inr [2024, 1, 1]
   \<and> spec_parseVersion ''2024-01-rc1'' = [2024, 1, 0]
   \<and> sync_parse_version ''2024-01-rc1'' = Inr [2024, 1, 0]"
  by (simp add: version_eval_defs spec_parseVersion_def)

text \<open>
  Neither function is total: \<open>isdigit\<close> holds of the superscript two, which \<open>int\<close>
  does not read.
\<close>

lemma parse_version_superscript_raises:
  "sync_parse_version [CHR 0xB2]
     = Inl (ValueError (''invalid literal for int() with base 10: '' @ [CHR 0x27, CHR 0xB2, CHR 0x27]))
   \<and> dep_graph_parse_version [CHR 0xB2]
     = Inl (ValueError (''invalid literal for int() with base 10: '' @ [CHR 0x27, CHR 0xB2, CHR 0x27]))"
  by (simp add: version_eval_defs)

text \<open>
  A run of 4301 digits is more than \<open>int\<close> converts with the default limit.
\<close>

lemma show_nat_4301: "show_nat 4301 = ''4301''"
  by (simp add: show_nat.simps)

lemma sync_segment_limit:
  "sync_segment (replicate 4301 (CHR ''1''))
     = Inl (ValueError ''Exceeds the limit (4300 digits) for integer string conversion: value has 4301 digits; use sys.set_int_max_str_digits() to increase the limit'')"
  by (simp add: sync_segment_def py_int_def int_max_str_digits_def isdigit_def isdecimal_def
        show_nat_4301 Let_def)

lemma split_char_no_sep: "sep \<notin> set s \<Longrightarrow> split_char sep s = [s]"
  by (induction s) auto

lemma parse_version_limit_raises:
  "sync_parse_version (replicate 4301 (CHR ''1''))
     = Inl (ValueError ''Exceeds the limit (4300 digits) for integer string conversion: value has 4301 digits; use sys.set_int_max_str_digits() to increase the limit'')"
proof -
  have "replace_char (CHR ''-'') (CHR ''.'') (replicate 4301 (CHR ''1'')) = replicate 4301 (CHR ''1'')"
    by (simp add: replace_char_def)
  moreover have "split_char (CHR ''.'') (replicate 4301 (CHR ''1'')) = [replicate 4301 (CHR ''1'')]"
    by (rule split_char_no_sep) simp
  ultimately show ?thesis
    by (simp add: sync_parse_version_def sync_segment_limit)
qed

text \<open>
  C9. The two \<open>parse_version\<close> functions are claimed to return the same tuple on every
  string. On \<open>"rc1"\<close> the one of \<open>dep_graph.py\<close> returns \<open>(1,)\<close> and the one of
  \<open>sync_conda_forge.py\<close> returns \<open>(0,)\<close>.
\<close>

theorem parse_versions_differ:
  "dep_graph_parse_version ''rc1'' = Inr [1] \<and> sync_parse_version ''rc1'' = Inr [0]"
  by (simp add: version_eval_defs)

text \<open>
  The shape of \<open>version_bound\<close> over the \<open>parse_version\<close> of \<open>dep_graph.py\<close>, which
  it calls: the empty tuple for a pattern without \<open>x\<close>, whatever the version, and
  otherwise the first \<open>n\<close> parsed components followed by zeros up to the length \<open>n\<close>,
  or the error of the parser.
\<close>

lemma version_bound_structure:
  "(count_char (CHR ''x'') p = 0 \<longrightarrow> version_bound v p = Inr [])
   \<and> (count_char (CHR ''x'') p = n \<and> 0 < n \<and> dep_graph_parse_version v = Inr t \<longrightarrow>
        (\<exists>r. version_bound v p = Inr r \<and> length r = n
             \<and> r = take n t @ replicate (n - length t) 0))
   \<and> (0 < count_char (CHR ''x'') p \<and> dep_graph_parse_version v = Inl e \<longrightarrow>
        version_bound v p = Inl e)
   \<and> version_bound ''1.2'' ''x.x'' = Inr [1, 2]
   \<and> version_bound ''1'' ''x.x'' = Inr [1, 0]
   \<and> version_bound v '''' = Inr []"
proof -
  have a: "count_char (CHR ''x'') p = 0 \<longrightarrow> version_bound v p = Inr []"
    by (simp add: version_bound_def)
  have b: "count_char (CHR ''x'') p = n \<and> 0 < n \<and> dep_graph_parse_version v = Inr t \<longrightarrow>
        (\<exists>r. version_bound v p = Inr r \<and> length r = n
             \<and> r = take n t @ replicate (n - length t) 0)"
    by (auto simp: version_bound_def)
  have c: "0 < count_char (CHR ''x'') p \<and> dep_graph_parse_version v = Inl e \<longrightarrow>
        version_bound v p = Inl e"
    by (auto simp: version_bound_def)
  have d: "version_bound ''1.2'' ''x.x'' = Inr [1, 2]" by (simp add: version_eval_defs)
  have e: "version_bound ''1'' ''x.x'' = Inr [1, 0]" by (simp add: version_eval_defs)
  have f: "version_bound v '''' = Inr []" by (simp add: version_bound_def count_char_def)
  from a b c d e f show ?thesis by blast
qed

text \<open>
  Where the parser of \<open>dep_graph.py\<close> returns the tuple of the specification,
  \<open>version_bound\<close> returns the \<open>boundedPrefix\<close> of the specification.
\<close>

lemma version_bound_spec:
  "dep_graph_parse_version v = Inr (spec_parseVersion v) \<Longrightarrow>
   version_bound v p = Inr (spec_boundedPrefix v p)"
  by (simp add: version_bound_def spec_boundedPrefix_def count_char_def Let_def)

text \<open>
  C3. \<open>boundedPrefix(v, p)\<close> is claimed to be the first \<open>n\<close> elements of
  \<open>parseVersion(v)\<close>, padded with zeros. For the version \<open>1.rc2\<close> and the pattern
  \<open>x.x\<close> that is \<open>(1, 0)\<close>, the segment \<open>rc2\<close> having no leading digit;
  \<open>version_bound\<close> returns \<open>(1, 2)\<close>, because the \<open>parse_version\<close> it calls joins all
  the digits of a segment. For a version with the superscript two and the pattern \<open>x\<close>
  it raises.
\<close>

theorem version_bound_all_digits:
  "version_bound ''1.rc2'' ''x.x'' = Inr [1, 2]
   \<and> spec_boundedPrefix ''1.rc2'' ''x.x'' = [1, 0]
   \<and> version_bound [CHR 0xB2] ''x''
       = Inl (ValueError (''invalid literal for int() with base 10: '' @ [CHR 0x27, CHR 0xB2, CHR 0x27]))"
  by (simp add: version_eval_defs spec_boundedPrefix_def spec_parseVersion_def)

section \<open>Properties of the Metadata Store\<close>

lemma quoted_literal_plain:
  assumes "list_all plain_char name" and "suf \<noteq> []" and "\<not> plain_char (hd suf)"
  shows "quoted_literal pre suf (pre @ name @ suf) = Some name"
proof -
  from assms(2) obtain q rest where suf: "suf = q # rest" by (cases suf) auto
  with assms(3) have q: "\<not> plain_char q" by simp
  have all: "\<And>x. x \<in> set name \<Longrightarrow> plain_char x"
    using assms(1) by (simp add: list_all_iff)
  have "takeWhile plain_char (name @ suf) = name"
    using all q by (simp add: suf takeWhile_append2)
  moreover have "dropWhile plain_char (name @ suf) = suf"
    using all q by (simp add: suf dropWhile_append2)
  ultimately show ?thesis by (simp add: quoted_literal_def)
qed

lemma quoted_literal_not_plain:
  assumes "\<not> list_all plain_char name" and "length suf' = length suf"
  shows "quoted_literal pre suf' (pre @ name @ suf) = None"
proof -
  from assms(1) have "dropWhile plain_char name \<noteq> []"
    by (simp add: list_all_iff dropWhile_eq_Nil_conv)
  moreover have "dropWhile plain_char (name @ suf) = dropWhile plain_char name @ suf"
    using assms(1) by (auto simp: list_all_iff dropWhile_append1)
  ultimately have "length (dropWhile plain_char (name @ suf)) > length suf'"
    using assms(2) by (cases "dropWhile plain_char name") auto
  then have "dropWhile plain_char (name @ suf) \<noteq> suf'" by auto
  then show ?thesis by (simp add: quoted_literal_def)
qed

lemma quoted_literal_differs:
  assumes "take k pre \<noteq> take k pre'" and "k \<le> length pre" and "k \<le> length pre'"
  shows "quoted_literal pre' suf' (pre @ rest) = None"
proof -
  have "take (length pre') (pre @ rest) \<noteq> pre'"
  proof
    assume eq: "take (length pre') (pre @ rest) = pre'"
    have "take k (take (length pre') (pre @ rest)) = take k pre"
      using assms(2,3) by (simp add: min_def)
    with eq assms(1) show False by simp
  qed
  then show ?thesis by (simp add: quoted_literal_def)
qed

lemmas query_text_defs = rdeps_pre_def rdeps_suf_def deps_pre_def deps_suf_def chain_pre_def
  chain_suf_def

lemma cypher_rdeps:
  "cypher (rdeps_pre @ name @ rdeps_suf) pk ed =
     (if list_all plain_char name
      then Inr [(''p.name'',
                 remdups (map edge_src (filter (\<lambda>e. edge_dst e = name) (match_dep pk ed))))]
      else Inl (Unmodelled (rdeps_pre @ name @ rdeps_suf)))"
proof (cases "list_all plain_char name")
  case True
  have "quoted_literal rdeps_pre rdeps_suf (rdeps_pre @ name @ rdeps_suf) = Some name"
    using True by (rule quoted_literal_plain) (simp_all add: rdeps_suf_def plain_char_def)
  with True show ?thesis by (simp add: cypher_def)
next
  case False
  have a: "quoted_literal rdeps_pre rdeps_suf (rdeps_pre @ name @ rdeps_suf) = None"
    using False by (rule quoted_literal_not_plain) simp
  have b: "quoted_literal deps_pre deps_suf (rdeps_pre @ name @ rdeps_suf) = None"
    by (rule quoted_literal_differs[where k = 38]) (simp_all add: query_text_defs)
  have c: "quoted_literal chain_pre chain_suf (rdeps_pre @ name @ rdeps_suf) = None"
    by (rule quoted_literal_differs[where k = 25]) (simp_all add: query_text_defs)
  from False a b c show ?thesis by (simp add: cypher_def)
qed

lemma cypher_deps:
  "cypher (deps_pre @ name @ deps_suf) pk ed =
     (if list_all plain_char name
      then Inr [(''d.name'',
                 remdups (map edge_dst (filter (\<lambda>e. edge_src e = name) (match_dep pk ed))))]
      else Inl (Unmodelled (deps_pre @ name @ deps_suf)))"
proof -
  have a: "quoted_literal rdeps_pre rdeps_suf (deps_pre @ name @ deps_suf) = None"
    by (rule quoted_literal_differs[where k = 38]) (simp_all add: query_text_defs)
  have c: "quoted_literal chain_pre chain_suf (deps_pre @ name @ deps_suf) = None"
    by (rule quoted_literal_differs[where k = 25]) (simp_all add: query_text_defs)
  show ?thesis
  proof (cases "list_all plain_char name")
    case True
    have "quoted_literal deps_pre deps_suf (deps_pre @ name @ deps_suf) = Some name"
      using True by (rule quoted_literal_plain) (simp_all add: deps_suf_def plain_char_def)
    with True a show ?thesis by (simp add: cypher_def)
  next
    case False
    have b: "quoted_literal deps_pre deps_suf (deps_pre @ name @ deps_suf) = None"
      using False by (rule quoted_literal_not_plain) simp
    from False a b c show ?thesis by (simp add: cypher_def)
  qed
qed

lemma cypher_chain:
  "cypher (chain_pre @ name @ chain_suf) pk ed =
     (if list_all plain_char name
      then Inr [(''p.name'', map fst (chain_rows (match_dep pk ed) name)),
                (''d1.name'', map (\<lambda>t. fst (snd t)) (chain_rows (match_dep pk ed) name)),
                (''d2.name'', map (\<lambda>t. snd (snd t)) (chain_rows (match_dep pk ed) name))]
      else Inl (Unmodelled (chain_pre @ name @ chain_suf)))"
proof -
  have a: "quoted_literal rdeps_pre rdeps_suf (chain_pre @ name @ chain_suf) = None"
    by (rule quoted_literal_differs[where k = 25]) (simp_all add: query_text_defs)
  have b: "quoted_literal deps_pre deps_suf (chain_pre @ name @ chain_suf) = None"
    by (rule quoted_literal_differs[where k = 25]) (simp_all add: query_text_defs)
  show ?thesis
  proof (cases "list_all plain_char name")
    case True
    have "quoted_literal chain_pre chain_suf (chain_pre @ name @ chain_suf) = Some name"
      using True by (rule quoted_literal_plain) (simp_all add: chain_suf_def plain_char_def)
    with True a b show ?thesis by (simp add: cypher_def)
  next
    case False
    have c: "quoted_literal chain_pre chain_suf (chain_pre @ name @ chain_suf) = None"
      using False by (rule quoted_literal_not_plain) simp
    from False a b c show ?thesis by (simp add: cypher_def)
  qed
qed

lemma zip_strict_columns:
  "zip_strict (map fst ts) (map (\<lambda>t. fst (snd t)) ts) (map (\<lambda>t. snd (snd t)) ts) = Inr ts"
  by (induction ts) auto

text \<open>
  What the three functions return: for a name without a quote and without a backslash
  the answer to the query of the docstring, and otherwise nothing that the model
  determines.
\<close>

lemma rdeps_eq:
  "rdeps pk ed name =
     (if list_all plain_char name
      then Inr (sort (remdups (map edge_src (filter (\<lambda>e. edge_dst e = name) (match_dep pk ed)))))
      else Inl (Unmodelled (rdeps_pre @ name @ rdeps_suf)))"
  by (simp add: rdeps_def cypher_rdeps column_def)

lemma deps_eq:
  "deps pk ed name =
     (if list_all plain_char name
      then Inr (sort (remdups (map edge_dst (filter (\<lambda>e. edge_src e = name) (match_dep pk ed)))))
      else Inl (Unmodelled (deps_pre @ name @ deps_suf)))"
  by (simp add: deps_def cypher_deps column_def)

lemma dep_chain_2hop_eq:
  "dep_chain_2hop pk ed name =
     (if list_all plain_char name then Inr (chain_rows (match_dep pk ed) name)
      else Inl (Unmodelled (chain_pre @ name @ chain_suf)))"
  by (simp add: dep_chain_2hop_def cypher_chain column_def zip_strict_columns)

lemmas graph_eval_defs = build_graph_def all_nodes_def match_dep_def rdeps_eq deps_eq
  dep_chain_2hop_eq chain_rows_def plain_char_def check_rebuilds_def load_upstream_def
  reason_text_def

lemma set_all_nodes: "set (all_nodes pk ed) = row_name ` set pk \<union> edge_dst ` set ed"
  by (simp add: all_nodes_def)

text \<open>
  On the tables that \<open>build_graph\<close> writes every edge row is matched: the source of an
  edge is the name of a package row.
\<close>

lemma build_graph_edge_src:
  "e \<in> set (snd (build_graph data)) \<Longrightarrow> edge_src e \<in> row_name ` set (fst (build_graph data))"
  by (auto simp: build_graph_def image_iff split: prod.splits)

lemma match_dep_build_graph:
  "match_dep (fst (build_graph data)) (snd (build_graph data)) = snd (build_graph data)"
proof -
  have "\<forall>e\<in>set (snd (build_graph data)).
          edge_src e \<in> set (all_nodes (fst (build_graph data)) (snd (build_graph data)))
          \<and> edge_dst e \<in> set (all_nodes (fst (build_graph data)) (snd (build_graph data)))"
    using build_graph_edge_src[of _ data] by (auto simp: set_all_nodes)
  then show ?thesis by (simp add: match_dep_def)
qed






section \<open>Properties of the Rebuild Analyzer\<close>

lemma emit_triggers_inv: "tr_inv st \<Longrightarrow> tr_inv (emit_triggers name reason ds st)"
  by (induction ds arbitrary: st) (auto simp: tr_inv_def pair_of_def)

lemma emit_triggers_pairs:
  "tr_inv st \<Longrightarrow> pair_of ` set (fst (emit_triggers name reason ds st))
     = pair_of ` set (fst st) \<union> (\<lambda>d. (d, name)) ` set ds"
proof (induction ds arbitrary: st)
  case Nil
  then show ?case by simp
next
  case (Cons dep ds)
  show ?case
  proof (cases "(dep, name) \<in> snd st")
    case True
    then have "(dep, name) \<in> pair_of ` set (fst st)" using Cons.prems by (simp add: tr_inv_def)
    with True Cons show ?thesis by auto
  next
    case False
    let ?st = "(fst st @ [(dep, name, reason)], insert (dep, name) (snd st))"
    have "tr_inv ?st" using Cons.prems False by (auto simp: tr_inv_def pair_of_def)
    from Cons.IH[OF this] False show ?thesis by (auto simp: pair_of_def)
  qed
qed

lemma emit_triggers_new:
  "t \<in> set (fst (emit_triggers name reason ds st)) \<Longrightarrow>
   t \<in> set (fst st) \<or> (\<exists>d\<in>set ds. t = (d, name, reason))"
proof (induction ds arbitrary: st)
  case Nil
  then show ?case by simp
next
  case (Cons dep ds)
  show ?case
  proof (cases "(dep, name) \<in> snd st")
    case True
    with Cons.prems have "t \<in> set (fst (emit_triggers name reason ds st))" by simp
    from Cons.IH[OF this] show ?thesis by auto
  next
    case False
    let ?st = "(fst st @ [(dep, name, reason)], insert (dep, name) (snd st))"
    from False Cons.prems have "t \<in> set (fst (emit_triggers name reason ds ?st))" by simp
    from Cons.IH[OF this] show ?thesis by auto
  qed
qed

lemma check_exports_step:
  assumes "check_exports pk ed name lv uv (exp # exps) st = Inr st'"
  shows "check_exports pk ed name lv uv exps
           (if export_fires lv uv exp
            then emit_triggers name (reason_text name lv uv (the (get_upper_bound exp)))
                   (rdeps_list pk ed name) st
            else st) = Inr st'"
  using assms
  by (auto simp: export_fires_def rdeps_list_def split: option.splits if_splits sum.splits)

lemma check_exports_inv:
  "check_exports pk ed name lv uv exps st = Inr st' \<Longrightarrow> tr_inv st \<Longrightarrow> tr_inv st'"
proof (induction exps arbitrary: st)
  case Nil
  then show ?case by simp
next
  case (Cons exp exps)
  let ?st = "if export_fires lv uv exp
            then emit_triggers name (reason_text name lv uv (the (get_upper_bound exp)))
                   (rdeps_list pk ed name) st
            else st"
  have "tr_inv ?st" using Cons.prems(2) by (simp add: emit_triggers_inv)
  with Cons.IH[OF check_exports_step[OF Cons.prems(1)]] show ?case .
qed

lemma check_exports_pairs:
  "check_exports pk ed name lv uv exps st = Inr st' \<Longrightarrow> tr_inv st \<Longrightarrow>
   pair_of ` set (fst st') = pair_of ` set (fst st)
     \<union> (if list_ex (export_fires lv uv) exps then (\<lambda>d. (d, name)) ` set (rdeps_list pk ed name) else {})"
proof (induction exps arbitrary: st)
  case Nil
  then show ?case by simp
next
  case (Cons exp exps)
  show ?case
  proof (cases "export_fires lv uv exp")
    case False
    then have "check_exports pk ed name lv uv exps st = Inr st'"
      using Cons.prems(1) by (auto simp: export_fires_def split: option.splits if_splits sum.splits)
    from Cons.IH[OF this Cons.prems(2)] False show ?thesis by simp
  next
    case True
    then obtain ub where ub: "get_upper_bound exp = Some ub" "ub \<noteq> []"
      "version_bound lv ub \<noteq> version_bound uv ub"
      by (auto simp: export_fires_def split: option.splits)
    let ?st = "emit_triggers name (reason_text name lv uv ub) (rdeps_list pk ed name) st"
    have step: "check_exports pk ed name lv uv exps ?st = Inr st'"
      using Cons.prems(1) ub by (auto simp: rdeps_list_def split: sum.splits if_splits)
    have inv: "tr_inv ?st" using Cons.prems(2) by (rule emit_triggers_inv)
    from Cons.IH[OF step inv] emit_triggers_pairs[OF Cons.prems(2)] True
    show ?thesis by auto
  qed
qed

lemma check_exports_new:
  "check_exports pk ed name lv uv exps st = Inr st' \<Longrightarrow> t \<in> set (fst st') \<Longrightarrow>
   t \<in> set (fst st) \<or>
   (\<exists>exp\<in>set exps. \<exists>ub. get_upper_bound exp = Some ub \<and> export_fires lv uv exp
       \<and> fst t \<in> set (rdeps_list pk ed name) \<and> snd t = (name, reason_text name lv uv ub))"
proof (induction exps arbitrary: st)
  case Nil
  then show ?case by simp
next
  case (Cons exp exps)
  show ?case
  proof (cases "export_fires lv uv exp")
    case False
    then have "check_exports pk ed name lv uv exps st = Inr st'"
      using Cons.prems(1) by (auto simp: export_fires_def split: option.splits if_splits sum.splits)
    from Cons.IH[OF this Cons.prems(2)] show ?thesis by auto
  next
    case True
    then obtain ub where ub: "get_upper_bound exp = Some ub" "ub \<noteq> []"
      "version_bound lv ub \<noteq> version_bound uv ub"
      by (auto simp: export_fires_def split: option.splits)
    let ?st = "emit_triggers name (reason_text name lv uv ub) (rdeps_list pk ed name) st"
    have step: "check_exports pk ed name lv uv exps ?st = Inr st'"
      using Cons.prems(1) ub by (auto simp: rdeps_list_def split: sum.splits if_splits)
    from Cons.IH[OF step Cons.prems(2)]
    show ?thesis
    proof
      assume "t \<in> set (fst ?st)"
      from emit_triggers_new[OF this] True ub(1) show ?thesis by auto
    next
      assume "\<exists>exp\<in>set exps. \<exists>ub. get_upper_bound exp = Some ub \<and> export_fires lv uv exp
       \<and> fst t \<in> set (rdeps_list pk ed name) \<and> snd t = (name, reason_text name lv uv ub)"
      then show ?thesis by auto
    qed
  qed
qed


lemma check_packages_step:
  assumes "check_packages pk ed up (row # rows) st = Inr st'"
  shows "\<exists>st1. check_packages pk ed up rows st1 = Inr st' \<and>
     (case map_of up (row_name row) of
        None \<Rightarrow> st1 = st
      | Some entry \<Rightarrow>
          if entry_version entry \<noteq> [] \<and> row_version row \<noteq> entry_version entry
          then check_exports pk ed (row_name row) (row_version row) (entry_version entry)
                 (row_run_exports row) st = Inr st1
          else st1 = st)"
  using assms
  by (cases "row_run_exports row")
     (auto simp del: split_paired_Ex split: option.splits if_splits sum.splits)

lemma check_packages_inv:
  "check_packages pk ed up rows st = Inr st' \<Longrightarrow> tr_inv st \<Longrightarrow> tr_inv st'"
proof (induction rows arbitrary: st)
  case Nil
  then show ?case by simp
next
  case (Cons row rows)
  from check_packages_step[OF Cons.prems(1)] obtain st1 where
    rest: "check_packages pk ed up rows st1 = Inr st'" and
    one: "case map_of up (row_name row) of
        None \<Rightarrow> st1 = st
      | Some entry \<Rightarrow>
          if entry_version entry \<noteq> [] \<and> row_version row \<noteq> entry_version entry
          then check_exports pk ed (row_name row) (row_version row) (entry_version entry)
                 (row_run_exports row) st = Inr st1
          else st1 = st"
    by blast
  have "tr_inv st1"
    using one Cons.prems(2) by (auto split: option.splits if_splits dest: check_exports_inv)
  with Cons.IH[OF rest] show ?case .
qed

lemma check_packages_pairs:
  "check_packages pk ed up rows st = Inr st' \<Longrightarrow> tr_inv st \<Longrightarrow>
   pair_of ` set (fst st') = pair_of ` set (fst st)
     \<union> {(d, row_name row) | d row. row \<in> set rows \<and> row_fires up row
                                 \<and> d \<in> set (rdeps_list pk ed (row_name row))}"
proof (induction rows arbitrary: st)
  case Nil
  then show ?case by simp
next
  case (Cons row rows)
  from check_packages_step[OF Cons.prems(1)] obtain st1 where
    rest: "check_packages pk ed up rows st1 = Inr st'" and
    one: "case map_of up (row_name row) of
        None \<Rightarrow> st1 = st
      | Some entry \<Rightarrow>
          if entry_version entry \<noteq> [] \<and> row_version row \<noteq> entry_version entry
          then check_exports pk ed (row_name row) (row_version row) (entry_version entry)
                 (row_run_exports row) st = Inr st1
          else st1 = st"
    by blast
  have inv1: "tr_inv st1"
    using one Cons.prems(2) by (auto split: option.splits if_splits dest: check_exports_inv)
  have first: "pair_of ` set (fst st1) = pair_of ` set (fst st)
     \<union> (if row_fires up row then (\<lambda>d. (d, row_name row)) ` set (rdeps_list pk ed (row_name row)) else {})"
  proof (cases "map_of up (row_name row)")
    case None
    with one show ?thesis by (simp add: row_fires_def)
  next
    case (Some entry)
    show ?thesis
    proof (cases "entry_version entry \<noteq> [] \<and> row_version row \<noteq> entry_version entry")
      case True
      with one Some have "check_exports pk ed (row_name row) (row_version row) (entry_version entry)
                 (row_run_exports row) st = Inr st1" by simp
      from check_exports_pairs[OF this Cons.prems(2)] True Some show ?thesis
        by (simp add: row_fires_def)
    next
      case False
      with one Some show ?thesis by (auto simp: row_fires_def)
    qed
  qed
  have "pair_of ` set (fst st') = pair_of ` set (fst st1)
     \<union> {(d, row_name r) | d r. r \<in> set rows \<and> row_fires up r
                                 \<and> d \<in> set (rdeps_list pk ed (row_name r))}"
    by (rule Cons.IH[OF rest inv1])
  with first show ?case by auto
qed

lemma check_packages_new:
  "check_packages pk ed up rows st = Inr st' \<Longrightarrow> t \<in> set (fst st') \<Longrightarrow>
   t \<in> set (fst st) \<or>
   (\<exists>row\<in>set rows. \<exists>entry. \<exists>exp\<in>set (row_run_exports row). \<exists>ub.
       map_of up (row_name row) = Some entry \<and> entry_version entry \<noteq> []
       \<and> row_version row \<noteq> entry_version entry
       \<and> get_upper_bound exp = Some ub
       \<and> export_fires (row_version row) (entry_version entry) exp
       \<and> fst t \<in> set (rdeps_list pk ed (row_name row))
       \<and> snd t = (row_name row,
                   reason_text (row_name row) (row_version row) (entry_version entry) ub))"
proof (induction rows arbitrary: st)
  case Nil
  then show ?case by simp
next
  case (Cons row rows)
  from check_packages_step[OF Cons.prems(1)] obtain st1 where
    rest: "check_packages pk ed up rows st1 = Inr st'" and
    one: "case map_of up (row_name row) of
        None \<Rightarrow> st1 = st
      | Some entry \<Rightarrow>
          if entry_version entry \<noteq> [] \<and> row_version row \<noteq> entry_version entry
          then check_exports pk ed (row_name row) (row_version row) (entry_version entry)
                 (row_run_exports row) st = Inr st1
          else st1 = st"
    by blast
  from Cons.IH[OF rest Cons.prems(2)] show ?case
  proof
    assume t1: "t \<in> set (fst st1)"
    show ?thesis
    proof (cases "map_of up (row_name row)")
      case None
      with one t1 show ?thesis by simp
    next
      case (Some entry)
      show ?thesis
      proof (cases "entry_version entry \<noteq> [] \<and> row_version row \<noteq> entry_version entry")
        case True
        with one Some have "check_exports pk ed (row_name row) (row_version row)
              (entry_version entry) (row_run_exports row) st = Inr st1" by simp
        from check_exports_new[OF this t1] True Some show ?thesis by auto
      next
        case False
        with one Some t1 show ?thesis by auto
      qed
    qed
  next
    assume "\<exists>row\<in>set rows. \<exists>entry. \<exists>exp\<in>set (row_run_exports row). \<exists>ub.
       map_of up (row_name row) = Some entry \<and> entry_version entry \<noteq> []
       \<and> row_version row \<noteq> entry_version entry
       \<and> get_upper_bound exp = Some ub
       \<and> export_fires (row_version row) (entry_version entry) exp
       \<and> fst t \<in> set (rdeps_list pk ed (row_name row))
       \<and> snd t = (row_name row,
                   reason_text (row_name row) (row_version row) (entry_version entry) ub)"
    then show ?thesis by auto
  qed
qed

lemma check_packages_new_name:
  assumes "check_packages pk ed up rows st = Inr st'" and "t \<in> set (fst st')"
    and "t \<notin> set (fst st)"
  shows "\<exists>entry. map_of up (fst (snd t)) = Some entry \<and> entry_version entry \<noteq> []"
proof -
  from check_packages_new[OF assms(1,2)] assms(3)
  obtain row :: package_row and entry ub where "map_of up (row_name row) = Some entry"
    "entry_version entry \<noteq> []"
    "snd t = (row_name row, reason_text (row_name row) (row_version row) (entry_version entry) ub)"
    by blast
  then show ?thesis by simp
qed

lemma tr_inv_init: "tr_inv ([], {})"
  by (simp add: tr_inv_def)

lemma distinct_map_sort: "distinct (map f (sort xs)) = distinct (map f xs)"
  by (simp add: distinct_map)

lemma in_rdeps_list:
  "d \<in> set (rdeps_list pk ed n) \<longleftrightarrow> (\<exists>ds. rdeps pk ed n = Inr ds \<and> d \<in> set ds)"
  by (cases "rdeps pk ed n") (simp_all add: rdeps_list_def)

lemma check_rebuilds_example_bump:
  "check_rebuilds
     (fst (build_graph
        [(''A'', \<lparr>info_version = va, info_host_deps = [(''B'', c)], info_run_exports = []\<rparr>),
         (''B'', \<lparr>info_version = ''1.2.0'', info_host_deps = [],
                  info_run_exports = [Pin n x lb (Some ''x.x'') k]\<rparr>)]))
     (snd (build_graph
        [(''A'', \<lparr>info_version = va, info_host_deps = [(''B'', c)], info_run_exports = []\<rparr>),
         (''B'', \<lparr>info_version = ''1.2.0'', info_host_deps = [],
                  info_run_exports = [Pin n x lb (Some ''x.x'') k]\<rparr>)]))
     (Some [(''B'', \<lparr>entry_version = ''1.3.0'', entry_build_number = bn, entry_build = b,
                     entry_depends = ds\<rparr>)]) cache
   = Inr [(''A'', ''B'', ''B 1.2.0 -> 1.3.0 (ub=x.x)'')]"
  by (simp add: graph_eval_defs version_eval_defs)

lemma check_rebuilds_example_same_prefix:
  "check_rebuilds
     (fst (build_graph
        [(''A'', \<lparr>info_version = va, info_host_deps = [(''B'', c)], info_run_exports = []\<rparr>),
         (''B'', \<lparr>info_version = ''1.2.0'', info_host_deps = [],
                  info_run_exports = [Pin n x lb (Some ''x.x'') k]\<rparr>)]))
     (snd (build_graph
        [(''A'', \<lparr>info_version = va, info_host_deps = [(''B'', c)], info_run_exports = []\<rparr>),
         (''B'', \<lparr>info_version = ''1.2.0'', info_host_deps = [],
                  info_run_exports = [Pin n x lb (Some ''x.x'') k]\<rparr>)]))
     (Some [(''B'', \<lparr>entry_version = ''1.2.5'', entry_build_number = bn, entry_build = b,
                     entry_depends = ds\<rparr>)]) cache
   = Inr []"
  by (simp add: graph_eval_defs version_eval_defs)

lemma check_rebuilds_general:
  assumes "check_rebuilds pk ed upstream cache = Inr r"
  shows "sorted r" and "distinct (map pair_of r)"
    and "pair_of ` set r =
          {(d, row_name row) | d row. row \<in> set pk \<and> row_fires (load_upstream upstream cache) row
                                   \<and> (\<exists>ds. rdeps pk ed (row_name row) = Inr ds \<and> d \<in> set ds)}"
    and "\<forall>t\<in>set r. \<exists>row\<in>set pk. \<exists>entry. \<exists>exp\<in>set (row_run_exports row). \<exists>ub.
           map_of (load_upstream upstream cache) (row_name row) = Some entry
           \<and> get_upper_bound exp = Some ub
           \<and> export_fires (row_version row) (entry_version entry) exp
           \<and> (\<exists>ds. rdeps pk ed (row_name row) = Inr ds \<and> fst t \<in> set ds)
           \<and> snd t = (row_name row,
                       reason_text (row_name row) (row_version row) (entry_version entry) ub)"
proof -
  from assms obtain st where
    st: "check_packages pk ed (load_upstream upstream cache) pk ([], {}) = Inr st"
    and r: "r = sort (fst st)"
    by (auto simp: check_rebuilds_def split: sum.splits)
  have inv: "tr_inv st" using check_packages_inv[OF st tr_inv_init] .
  show "sorted r" by (simp add: r)
  show "distinct (map pair_of r)"
    using inv by (simp add: r distinct_map_sort tr_inv_def)
  show "pair_of ` set r =
          {(d, row_name row) | d row. row \<in> set pk \<and> row_fires (load_upstream upstream cache) row
                                   \<and> (\<exists>ds. rdeps pk ed (row_name row) = Inr ds \<and> d \<in> set ds)}"
    using check_packages_pairs[OF st tr_inv_init] by (simp add: r flip: in_rdeps_list)
  show "\<forall>t\<in>set r. \<exists>row\<in>set pk. \<exists>entry. \<exists>exp\<in>set (row_run_exports row). \<exists>ub.
           map_of (load_upstream upstream cache) (row_name row) = Some entry
           \<and> get_upper_bound exp = Some ub
           \<and> export_fires (row_version row) (entry_version entry) exp
           \<and> (\<exists>ds. rdeps pk ed (row_name row) = Inr ds \<and> fst t \<in> set ds)
           \<and> snd t = (row_name row,
                       reason_text (row_name row) (row_version row) (entry_version entry) ub)"
  proof
    fix t assume "t \<in> set r"
    then have "t \<in> set (fst st)" by (simp add: r)
    from check_packages_new[OF st this, unfolded in_rdeps_list] show "\<exists>row\<in>set pk. \<exists>entry. \<exists>exp\<in>set (row_run_exports row). \<exists>ub.
           map_of (load_upstream upstream cache) (row_name row) = Some entry
           \<and> get_upper_bound exp = Some ub
           \<and> export_fires (row_version row) (entry_version entry) exp
           \<and> (\<exists>ds. rdeps pk ed (row_name row) = Inr ds \<and> fst t \<in> set ds)
           \<and> snd t = (row_name row,
                       reason_text (row_name row) (row_version row) (entry_version entry) ub)"
      by simp blast
  qed
qed

text \<open>
  C10. When the upstream snapshot holds an entry for a package whose version is the empty
  string, no trigger that \<open>check_rebuilds\<close> returns names that package as the changed
  dependency, whatever its local version and its export rules are.
\<close>

theorem empty_upstream_version_no_trigger:
  assumes "map_of (load_upstream upstream cache) name = Some entry"
    and "entry_version entry = []"
    and "check_rebuilds pk ed upstream cache = Inr r"
  shows "\<forall>t\<in>set r. fst (snd t) \<noteq> name"
proof
  fix t assume t: "t \<in> set r"
  from assms(3) obtain st where
    st: "check_packages pk ed (load_upstream upstream cache) pk ([], {}) = Inr st"
    and r: "r = sort (fst st)"
    by (auto simp: check_rebuilds_def split: sum.splits)
  from t have tst: "t \<in> set (fst st)" by (simp add: r)
  have "t \<notin> set (fst (([]::trigger list), ({}::(string \<times> string) set)))" by simp
  from check_packages_new_name[OF st tst this] obtain e where
    "map_of (load_upstream upstream cache) (fst (snd t)) = Some e" "entry_version e \<noteq> []"
    by blast
  with assms(1,2) show "fst (snd t) \<noteq> name" by auto
qed

text \<open>
  C1. Whenever \<open>check_rebuilds\<close> returns a list, the list is sorted, holds each pair
  \<open>(dependent, package)\<close> at most once, and its pairs are exactly the pairs of a package
  row that fires with one of its reverse dependencies; every trigger carries the reason
  text of an export rule of its package that fires. For the graph with the package \<open>B\<close>
  at version \<open>1.2.0\<close>, one export rule with the upper bound \<open>x.x\<close> and the edge from
  \<open>A\<close> to \<open>B\<close>, the upstream version \<open>1.3.0\<close> gives the single trigger
  \<open>("A", "B", "B 1.2.0 -> 1.3.0 (ub=x.x)")\<close> and the upstream version \<open>1.2.5\<close> gives
  the empty list.
\<close>

theorem check_rebuilds_triggers:
  "(check_rebuilds pk ed upstream cache = Inr r \<longrightarrow>
      sorted r \<and> distinct (map pair_of r)
      \<and> pair_of ` set r =
          {(d, row_name row) | d row. row \<in> set pk \<and> row_fires (load_upstream upstream cache) row
                                   \<and> (\<exists>ds. rdeps pk ed (row_name row) = Inr ds \<and> d \<in> set ds)}
      \<and> (\<forall>t\<in>set r. \<exists>row\<in>set pk. \<exists>entry. \<exists>exp\<in>set (row_run_exports row). \<exists>ub.
           map_of (load_upstream upstream cache) (row_name row) = Some entry
           \<and> get_upper_bound exp = Some ub
           \<and> export_fires (row_version row) (entry_version entry) exp
           \<and> (\<exists>ds. rdeps pk ed (row_name row) = Inr ds \<and> fst t \<in> set ds)
           \<and> snd t = (row_name row,
                       reason_text (row_name row) (row_version row) (entry_version entry) ub)))
   \<and> check_rebuilds
     (fst (build_graph
        [(''A'', \<lparr>info_version = va, info_host_deps = [(''B'', c)], info_run_exports = []\<rparr>),
         (''B'', \<lparr>info_version = ''1.2.0'', info_host_deps = [],
                  info_run_exports = [Pin n x lb (Some ''x.x'') k]\<rparr>)]))
     (snd (build_graph
        [(''A'', \<lparr>info_version = va, info_host_deps = [(''B'', c)], info_run_exports = []\<rparr>),
         (''B'', \<lparr>info_version = ''1.2.0'', info_host_deps = [],
                  info_run_exports = [Pin n x lb (Some ''x.x'') k]\<rparr>)]))
     (Some [(''B'', \<lparr>entry_version = ''1.3.0'', entry_build_number = bn, entry_build = b,
                     entry_depends = ds\<rparr>)]) cache0
     = Inr [(''A'', ''B'', ''B 1.2.0 -> 1.3.0 (ub=x.x)'')]
   \<and> check_rebuilds
     (fst (build_graph
        [(''A'', \<lparr>info_version = va, info_host_deps = [(''B'', c)], info_run_exports = []\<rparr>),
         (''B'', \<lparr>info_version = ''1.2.0'', info_host_deps = [],
                  info_run_exports = [Pin n x lb (Some ''x.x'') k]\<rparr>)]))
     (snd (build_graph
        [(''A'', \<lparr>info_version = va, info_host_deps = [(''B'', c)], info_run_exports = []\<rparr>),
         (''B'', \<lparr>info_version = ''1.2.0'', info_host_deps = [],
                  info_run_exports = [Pin n x lb (Some ''x.x'') k]\<rparr>)]))
     (Some [(''B'', \<lparr>entry_version = ''1.2.5'', entry_build_number = bn, entry_build = b,
                     entry_depends = ds\<rparr>)]) cache0
     = Inr []"
  using check_rebuilds_general[of pk ed upstream cache r]
    check_rebuilds_example_bump[of va c n x lb k bn b ds cache0]
    check_rebuilds_example_same_prefix[of va c n x lb k bn b ds cache0]
  by blast

theorem check_rebuilds_triggers_witness:
  "check_rebuilds (fst (build_graph wit_data)) (snd (build_graph wit_data))
       (Some [(''B'', \<lparr>entry_version = ''2.0.0'', entry_build_number = 0, entry_build = '''',
                       entry_depends = []\<rparr>)]) None
     = Inr [(''A'', ''B'', ''B 1.2.0 -> 2.0.0 (ub=x.x)''), (''C'', ''B'', ''B 1.2.0 -> 2.0.0 (ub=x.x)'')]
   \<and> sorted [(''A'', ''B'', ''B 1.2.0 -> 2.0.0 (ub=x.x)''), (''C'', ''B'', ''B 1.2.0 -> 2.0.0 (ub=x.x)'')]
   \<and> distinct (map pair_of
        [(''A'', ''B'', ''B 1.2.0 -> 2.0.0 (ub=x.x)''), (''C'', ''B'', ''B 1.2.0 -> 2.0.0 (ub=x.x)'')])"
proof -
  have h: "check_rebuilds (fst (build_graph wit_data)) (snd (build_graph wit_data))
       (Some [(''B'', \<lparr>entry_version = ''2.0.0'', entry_build_number = 0, entry_build = '''',
                       entry_depends = []\<rparr>)]) None
     = Inr [(''A'', ''B'', ''B 1.2.0 -> 2.0.0 (ub=x.x)''), (''C'', ''B'', ''B 1.2.0 -> 2.0.0 (ub=x.x)'')]"
    by (simp add: wit_data_def graph_eval_defs version_eval_defs)
  from check_rebuilds_triggers[THEN conjunct1, rule_format, OF h] h
  show ?thesis by blast
qed

text \<open>
  The package \<open>B\<close> of the witness has the local version \<open>1.2.0\<close> and two export rules
  whose bounds differ between \<open>1.2.0\<close> and the empty version.
\<close>

theorem empty_upstream_version_no_trigger_witness:
  "map_of (load_upstream (Some [(''B'', \<lparr>entry_version = '''', entry_build_number = 0, entry_build = '''',
                       entry_depends = []\<rparr>)]) None) ''B''
     = Some \<lparr>entry_version = '''', entry_build_number = 0, entry_build = '''', entry_depends = []\<rparr>
   \<and> version_bound ''1.2.0'' ''x.x'' \<noteq> version_bound '''' ''x.x''
   \<and> check_rebuilds (fst (build_graph wit_data)) (snd (build_graph wit_data))
       (Some [(''B'', \<lparr>entry_version = '''', entry_build_number = 0, entry_build = '''',
                       entry_depends = []\<rparr>)]) None = Inr []"
proof -
  have a: "map_of (load_upstream (Some [(''B'', \<lparr>entry_version = '''', entry_build_number = 0, entry_build = '''',
                       entry_depends = []\<rparr>)]) None) ''B''
     = Some \<lparr>entry_version = '''', entry_build_number = 0, entry_build = '''', entry_depends = []\<rparr>"
    by (simp add: load_upstream_def)
  have b: "entry_version \<lparr>entry_version = '''', entry_build_number = 0, entry_build = '''', entry_depends = []\<rparr> = []"
    by simp
  have c: "check_rebuilds (fst (build_graph wit_data)) (snd (build_graph wit_data))
       (Some [(''B'', \<lparr>entry_version = '''', entry_build_number = 0, entry_build = '''',
                       entry_depends = []\<rparr>)]) None = Inr []"
    by (simp add: wit_data_def graph_eval_defs version_eval_defs)
  have d: "version_bound ''1.2.0'' ''x.x'' \<noteq> version_bound '''' ''x.x''"
    by (simp add: version_eval_defs)
  from empty_upstream_version_no_trigger[OF a b c] a c d show ?thesis by blast
qed

section \<open>Properties of the Graph Builder\<close>

lemma map_of_dict_set: "map_of (dict_set d k v) = (map_of d)(k \<mapsto> v)"
  by (induction d) (auto simp: fun_eq_iff)

lemma dict_set_keys: "set (map fst (dict_set d k v)) = insert k (set (map fst d))"
  by (induction d) auto

lemma distinct_dict_set: "distinct (map fst d) \<Longrightarrow> distinct (map fst (dict_set d k v))"
  by (induction d) (auto simp: dict_set_keys[simplified])

lemma main_json_loop_lookup:
  "map_of (main_json_loop pkgs result) n =
     (case map_of result n of
        Some i \<Rightarrow> Some i
      | None \<Rightarrow> map_option info_of (find (\<lambda>pkg. out_name pkg = n) pkgs))"
proof (induction pkgs arbitrary: result)
  case Nil
  then show ?case by (simp split: option.splits)
next
  case (Cons pkg pkgs)
  show ?case
  proof (cases "map_of result (out_name pkg)")
    case None
    then show ?thesis
      by (simp add: Cons.IH map_of_dict_set Let_def split: option.splits)
  next
    case (Some i)
    then show ?thesis
      by (auto simp: Cons.IH Let_def split: option.splits)
  qed
qed

lemma main_json_loop_distinct:
  "distinct (map fst result) \<Longrightarrow> distinct (map fst (main_json_loop pkgs result))"
  by (induction pkgs arbitrary: result) (auto simp: Let_def distinct_dict_set)

text \<open>
  C8 (as amended). When several outputs of the renderer carry the same package name, the
  entry that \<open>main\<close> emits for the name (version, host_deps, run_exports) is the one of
  the first such output in the sequence; every name is emitted once.
\<close>

theorem main_json_first_record_wins:
  "map_of (main_json all_pkgs) n = map_option info_of (find (\<lambda>pkg. out_name pkg = n) all_pkgs)
   \<and> distinct (map fst (main_json all_pkgs))"
  by (simp add: main_json_def main_json_loop_lookup main_json_loop_distinct)

text \<open>
  C8 as stated says that the last output with a name overwrites the earlier ones. With two
  outputs named \<open>zlib\<close>, of versions \<open>1.2\<close> and then \<open>1.3\<close>, the emitted entry is the
  one of version \<open>1.2\<close>.
\<close>

theorem main_json_last_record_ignored:
  "map_of (main_json
     [\<lparr>out_name = ''zlib'', out_version = ''1.2'', out_build_string = ''h0'',
       out_host_deps = [], out_run_exports = []\<rparr>,
      \<lparr>out_name = ''zlib'', out_version = ''1.3'', out_build_string = ''h1'',
       out_host_deps = [(''libc'', '''')], out_run_exports = []\<rparr>]) ''zlib''
   = Some \<lparr>info_version = ''1.2'', info_host_deps = [], info_run_exports = []\<rparr>"
  by (simp add: main_json_def info_of_def)

section \<open>Properties of the Shard Cache\<close>

text \<open>
  C5. When no file is cached under the expected hash and the SHA-256 digest of the
  downloaded bytes is not the expected hash, \<open>download_shard\<close> raises the
  \<open>ValueError\<close> of the hash mismatch and leaves the files of the shard cache as they
  were (the directory has been created, nothing else has changed). When the digest is
  the expected hash, the bytes are stored under the name made of the hash, and the result
  is the unpacking of these bytes, be it a shard or an error.
\<close>

theorem download_shard_verify_then_persist:
  "(shard_files d (cache_file_name shard_hash) = None \<and> fetch r url = Inr data
      \<and> sha256 r data \<noteq> shard_hash \<longrightarrow>
        fst (download_shard r url shard_hash d)
          = Inl (ValueError (''Hash mismatch: expected '' @ hex shard_hash @ '', got ''
                              @ hex (sha256 r data)))
        \<and> shard_files (snd (download_shard r url shard_hash d)) = shard_files d
        \<and> snd (download_shard r url shard_hash d) = d\<lparr>shards_dir := True\<rparr>)
   \<and> (shard_files d (cache_file_name shard_hash) = None \<and> fetch r url = Inr data
      \<and> sha256 r data = shard_hash \<longrightarrow>
        shard_files (snd (download_shard r url shard_hash d))
          = (shard_files d)(cache_file_name shard_hash \<mapsto> data)
        \<and> fst (download_shard r url shard_hash d) = unpack r data)"
  by (simp add: download_shard_def Let_def)

theorem download_shard_verify_then_persist_witness:
  "shard_files \<lparr>shards_dir = False, shard_files = Map.empty, deps_cache = None, tracked_hashes = None\<rparr>
      (cache_file_name [0xAB]) = None
   \<and> fst (download_shard
        \<lparr>fetch = (\<lambda>u. Inr [1, 2, 3]), sha256 = (\<lambda>b. [0xCD]), unpack = (\<lambda>b. Inl (DecodeError ''zstd''))\<rparr>
        ''u'' [0xAB]
        \<lparr>shards_dir = False, shard_files = Map.empty, deps_cache = None, tracked_hashes = None\<rparr>)
      = Inl (ValueError ''Hash mismatch: expected ab, got cd'')
   \<and> shard_files (snd (download_shard
        \<lparr>fetch = (\<lambda>u. Inr [1, 2, 3]), sha256 = (\<lambda>b. [0xCD]), unpack = (\<lambda>b. Inl (DecodeError ''zstd''))\<rparr>
        ''u'' [0xAB]
        \<lparr>shards_dir = False, shard_files = Map.empty, deps_cache = None, tracked_hashes = None\<rparr>))
      = Map.empty
   \<and> shard_files (snd (download_shard
        \<lparr>fetch = (\<lambda>u. Inr [1, 2, 3]), sha256 = (\<lambda>b. [0xAB]), unpack = (\<lambda>b. Inl (DecodeError ''zstd''))\<rparr>
        ''u'' [0xAB]
        \<lparr>shards_dir = False, shard_files = Map.empty, deps_cache = None, tracked_hashes = None\<rparr>))
      = [''ab.msgpack.zst'' \<mapsto> [1, 2, 3]]"
  using download_shard_verify_then_persist
     [of "\<lparr>shards_dir = False, shard_files = Map.empty, deps_cache = None, tracked_hashes = None\<rparr>"
         "[0xAB]"
         "\<lparr>fetch = (\<lambda>u. Inr [1, 2, 3]), sha256 = (\<lambda>b. [0xCD]), unpack = (\<lambda>b. Inl (DecodeError ''zstd''))\<rparr>"
         "''u''" "[1, 2, 3]"]
    download_shard_verify_then_persist
     [of "\<lparr>shards_dir = False, shard_files = Map.empty, deps_cache = None, tracked_hashes = None\<rparr>"
         "[0xAB]"
         "\<lparr>fetch = (\<lambda>u. Inr [1, 2, 3]), sha256 = (\<lambda>b. [0xAB]), unpack = (\<lambda>b. Inl (DecodeError ''zstd''))\<rparr>"
         "''u''" "[1, 2, 3]"]
  by (simp add: cache_file_name_def hex_def hex_byte_def hex_digit_def)

lemma classify_closed_form:
  "classify sm oh od names acc =
     \<lparr>new_hashes = foldl (\<lambda>nh n. case map_of sm n of None \<Rightarrow> nh | Some h \<Rightarrow> dict_set nh n (hex h))
                     (new_hashes acc) names,
      missing = missing acc @ filter (\<lambda>n. map_of sm n = None) names,
      changed = changed acc @ filter (is_changed sm oh od) names,
      unchanged = unchanged acc + length (filter (is_unchanged sm oh od) names)\<rparr>"
proof (induction names arbitrary: acc)
  case Nil
  show ?case by simp
next
  case (Cons n names)
  show ?case
  proof (cases "map_of sm n")
    case None
    then show ?thesis by (simp add: Cons.IH is_changed_def is_unchanged_def)
  next
    case (Some h)
    then show ?thesis by (simp add: Cons.IH is_changed_def is_unchanged_def Let_def)
  qed
qed

lemma partition3:
  "length (filter (\<lambda>n. map_of sm n = None) names) + length (filter (is_changed sm oh od) names)
     + length (filter (is_unchanged sm oh od) names) = length names"
  by (induction names) (auto simp: is_changed_def is_unchanged_def split: option.splits)

subsection \<open>Two runs of \<open>main\<close>\<close>

lemma hex_digit_inj:
  assumes "a < 16" "b < 16" "hex_digit a = hex_digit b"
  shows "a = b"
proof -
  have d: "distinct ''0123456789abcdef''" by simp
  have l: "length ''0123456789abcdef'' = 16" by simp
  from assms have "''0123456789abcdef'' ! a = ''0123456789abcdef'' ! b"
    by (simp add: hex_digit_def)
  with d l assms(1,2) show ?thesis
    by (metis nth_eq_iff_index_eq)
qed

lemma hex_byte_inj:
  assumes "hex_byte x = hex_byte y"
  shows "x = y"
proof -
  have bx: "unat x div 16 < 16" "unat x mod 16 < 16"
    using unsigned_less[of x, where 'a = nat] by (simp_all add: less_mult_imp_div_less)
  have by': "unat y div 16 < 16" "unat y mod 16 < 16"
    using unsigned_less[of y, where 'a = nat] by (simp_all add: less_mult_imp_div_less)
  from assms have "hex_digit (unat x div 16) = hex_digit (unat y div 16)"
    and "hex_digit (unat x mod 16) = hex_digit (unat y mod 16)"
    by (simp_all add: hex_byte_def)
  then have "unat x div 16 = unat y div 16" "unat x mod 16 = unat y mod 16"
    using hex_digit_inj[OF bx(1) by'(1)] hex_digit_inj[OF bx(2) by'(2)] by blast+
  then have "unat x = unat y"
    by (metis div_mult_mod_eq)
  then show ?thesis by (simp add: word_unat_eq_iff)
qed

lemma hex_inj: "hex xs = hex ys \<Longrightarrow> xs = ys"
proof (induction xs arbitrary: ys)
  case Nil
  then show ?case by (cases ys) (simp_all add: hex_def hex_byte_def)
next
  case (Cons x xs)
  then show ?case
  proof (cases ys)
    case Nil
    with Cons.prems show ?thesis by (simp add: hex_def hex_byte_def)
  next
    case (Cons y ys')
    with Cons.prems have "hex_byte x @ hex xs = hex_byte y @ hex ys'" by (simp add: hex_def)
    moreover have "length (hex_byte x) = length (hex_byte y)" by (simp add: hex_byte_def)
    ultimately have "hex_byte x = hex_byte y" "hex xs = hex ys'" by simp_all
    with Cons.IH Cons show ?thesis by (auto dest: hex_byte_inj)
  qed
qed

lemma cache_file_name_inj: "cache_file_name h = cache_file_name h' \<Longrightarrow> h = h'"
  by (simp add: cache_file_name_def hex_inj)

lemma cache_extends_refl: "cache_extends r base d d"
  by (simp add: cache_extends_def)

lemma cache_extends_files:
  "shard_files d' = shard_files d \<Longrightarrow> cache_extends r base d0 d \<Longrightarrow> cache_extends r base d0 d'"
  by (simp add: cache_extends_def)

lemma download_shard_result_stable:
  assumes "cache_extends r base d0 d"
  shows "fst (download_shard r (get_shard_url base h) h d)
       = fst (download_shard r (get_shard_url base h) h d0)"
proof -
  from assms have
    "shard_files d (cache_file_name h) = shard_files d0 (cache_file_name h)
        \<or> (shard_files d0 (cache_file_name h) = None
            \<and> (\<exists>data. fetch r (get_shard_url base h) = Inr data \<and> sha256 r data = h
                  \<and> shard_files d (cache_file_name h) = Some data))"
    by (simp add: cache_extends_def)
  then show ?thesis
  proof
    assume "shard_files d (cache_file_name h) = shard_files d0 (cache_file_name h)"
    then show ?thesis
      by (simp add: download_shard_def Let_def split: option.splits sum.splits)
  next
    assume "shard_files d0 (cache_file_name h) = None
            \<and> (\<exists>data. fetch r (get_shard_url base h) = Inr data \<and> sha256 r data = h
                  \<and> shard_files d (cache_file_name h) = Some data)"
    then show ?thesis
      by (auto simp: download_shard_def Let_def)
  qed
qed

lemma download_shard_other_fields:
  "deps_cache (snd (download_shard r url h d)) = deps_cache d
   \<and> tracked_hashes (snd (download_shard r url h d)) = tracked_hashes d"
  by (simp add: download_shard_def Let_def split: option.splits sum.splits)

lemma download_shard_files:
  "shard_files (snd (download_shard r url h d)) = shard_files d
   \<or> (shard_files d (cache_file_name h) = None
       \<and> (\<exists>data. fetch r url = Inr data \<and> sha256 r data = h
             \<and> shard_files (snd (download_shard r url h d))
                 = (shard_files d)(cache_file_name h \<mapsto> data)))"
  by (simp add: download_shard_def Let_def split: option.splits sum.splits)

lemma download_shard_extends:
  assumes "cache_extends r base d0 d"
  shows "cache_extends r base d0 (snd (download_shard r (get_shard_url base h) h d))"
proof -
  let ?d' = "snd (download_shard r (get_shard_url base h) h d)"
  from download_shard_files[of r "get_shard_url base h" h d]
  show ?thesis
  proof
    assume "shard_files ?d' = shard_files d"
    then show ?thesis using assms by (rule cache_extends_files)
  next
    assume "shard_files d (cache_file_name h) = None
       \<and> (\<exists>data. fetch r (get_shard_url base h) = Inr data \<and> sha256 r data = h
             \<and> shard_files ?d' = (shard_files d)(cache_file_name h \<mapsto> data))"
    then obtain data where none: "shard_files d (cache_file_name h) = None"
      and f: "fetch r (get_shard_url base h) = Inr data" "sha256 r data = h"
      and new: "shard_files ?d' = (shard_files d)(cache_file_name h \<mapsto> data)"
      by blast
    show ?thesis
      unfolding cache_extends_def
    proof
      fix h'
      show "shard_files ?d' (cache_file_name h') = shard_files d0 (cache_file_name h')
        \<or> (shard_files d0 (cache_file_name h') = None
            \<and> (\<exists>data. fetch r (get_shard_url base h') = Inr data \<and> sha256 r data = h'
                  \<and> shard_files ?d' (cache_file_name h') = Some data))"
      proof (cases "h' = h")
        case True
        from assms none have "shard_files d0 (cache_file_name h) = None"
          by (auto simp: cache_extends_def dest: spec[of _ h])
        with True f new show ?thesis by simp
      next
        case False
        then have "cache_file_name h' \<noteq> cache_file_name h"
          using cache_file_name_inj by blast
        then have "shard_files ?d' (cache_file_name h') = shard_files d (cache_file_name h')"
          by (simp add: new)
        with assms show ?thesis by (simp add: cache_extends_def)
      qed
    qed
  qed
qed

lemma fetch_changed_closed_form:
  assumes "\<forall>n\<in>set names. map_of (index_shards idx) n \<noteq> None"
    and "cache_extends r (index_base_url idx) d0 d"
  shows "\<exists>d'. fetch_changed r idx names (nd, d) = Inr (foldl (merge_entry r idx d0) nd names, d')
            \<and> cache_extends r (index_base_url idx) d0 d'
            \<and> deps_cache d' = deps_cache d \<and> tracked_hashes d' = tracked_hashes d"
  using assms
proof (induction names arbitrary: nd d)
  case Nil
  then show ?case by simp
next
  case (Cons n names)
  from Cons.prems(1) obtain h where h: "map_of (index_shards idx) n = Some h" by auto
  let ?url = "get_shard_url (index_base_url idx) h"
  let ?res = "download_shard r ?url h d"
  have ext: "cache_extends r (index_base_url idx) d0 (snd ?res)"
    using Cons.prems(2) by (rule download_shard_extends)
  have res: "fst ?res = fst (download_shard r ?url h d0)"
    using Cons.prems(2) by (rule download_shard_result_stable)
  have step: "fetch_changed r idx (n # names) (nd, d)
        = fetch_changed r idx names (merge_entry r idx d0 nd n, snd ?res)"
    by (simp add: h Let_def merge_entry_def entry_of_def res split: sum.splits option.splits)
  from Cons.prems(1) have rest: "\<forall>n\<in>set names. map_of (index_shards idx) n \<noteq> None" by simp
  from Cons.IH[OF rest ext, of "merge_entry r idx d0 nd n"] obtain d' where
    "fetch_changed r idx names (merge_entry r idx d0 nd n, snd ?res)
       = Inr (foldl (merge_entry r idx d0) (merge_entry r idx d0 nd n) names, d')"
    "cache_extends r (index_base_url idx) d0 d'"
    "deps_cache d' = deps_cache (snd ?res)" "tracked_hashes d' = tracked_hashes (snd ?res)"
    by blast
  with step download_shard_other_fields[of r ?url h d] show ?case by simp
qed

lemma merge_entry_keys_mono: "map_of nd k \<noteq> None \<Longrightarrow> map_of (merge_entry r idx d0 nd n) k \<noteq> None"
  by (auto simp: merge_entry_def map_of_dict_set split: option.splits)

lemma foldl_merge_keys_mono:
  "map_of nd k \<noteq> None \<Longrightarrow> map_of (foldl (merge_entry r idx d0) nd names) k \<noteq> None"
proof (induction names arbitrary: nd)
  case Nil
  then show ?case by simp
next
  case (Cons n names)
  from Cons.prems have "map_of (merge_entry r idx d0 nd n) k \<noteq> None"
    by (rule merge_entry_keys_mono)
  from Cons.IH[OF this] show ?case by simp
qed

lemma foldl_merge_adds:
  assumes "k \<in> set names" "map_of (index_shards idx) k = Some h"
    "entry_of r (index_base_url idx) d0 h = Some info"
  shows "map_of (foldl (merge_entry r idx d0) nd names) k \<noteq> None"
  using assms(1)
proof (induction names arbitrary: nd)
  case Nil
  then show ?case by simp
next
  case (Cons n names)
  show ?case
  proof (cases "k = n")
    case True
    have "map_of (merge_entry r idx d0 nd n) k \<noteq> None"
      using True assms(2,3) by (simp add: merge_entry_def map_of_dict_set)
    then show ?thesis by (simp add: foldl_merge_keys_mono)
  next
    case False
    with Cons.prems have "k \<in> set names" by simp
    from Cons.IH[OF this] show ?thesis by simp
  qed
qed

lemma foldl_merge_nothing:
  assumes "\<forall>n\<in>set names. \<forall>h. map_of (index_shards idx) n = Some h
              \<longrightarrow> entry_of r (index_base_url idx) d0 h = None"
  shows "foldl (merge_entry r idx d0) nd names = nd"
  using assms
  by (induction names arbitrary: nd) (auto simp: merge_entry_def split: option.splits)

lemma new_hashes_lookup:
  assumes "map_of sm n = Some h"
    and "map_of nh n = Some (hex h) \<or> n \<in> set names"
  shows "map_of (foldl (\<lambda>nh n. case map_of sm n of None \<Rightarrow> nh | Some h \<Rightarrow> dict_set nh n (hex h))
                   nh names) n = Some (hex h)"
  using assms(2)
proof (induction names arbitrary: nh)
  case Nil
  then show ?case by simp
next
  case (Cons m names)
  let ?nh = "case map_of sm m of None \<Rightarrow> nh | Some h \<Rightarrow> dict_set nh m (hex h)"
  have "map_of ?nh n = Some (hex h) \<or> n \<in> set names"
    using Cons.prems assms(1) by (auto simp: map_of_dict_set split: option.splits)
  from Cons.IH[OF this] show ?case by simp
qed

lemma is_changed_indexed: "is_changed sm oh od n \<Longrightarrow> map_of sm n \<noteq> None"
  by (auto simp: is_changed_def split: option.splits)

lemma main_full_sync:
  assumes "\<not> arg_check a" "\<not> arg_list_changed a" "tracked_names a lhd \<noteq> []"
    and "cache_extends r (index_base_url idx) d0 d"
  shows "\<exists>d'. main r lhd idx a d =
      Inr (\<lparr>rep_changed = filter (is_changed (index_shards idx) (load_hashes d) (load_deps d))
                            (tracked_names a lhd),
            rep_unchanged = length (filter (is_unchanged (index_shards idx) (load_hashes d) (load_deps d))
                            (tracked_names a lhd)),
            rep_missing = filter (\<lambda>n. map_of (index_shards idx) n = None) (tracked_names a lhd),
            rep_updates = find_updates (load_deps d)
               (foldl (merge_entry r idx d0) (load_deps d)
                  (filter (is_changed (index_shards idx) (load_hashes d) (load_deps d))
                     (tracked_names a lhd)))\<rparr>,
           d'\<lparr>deps_cache := Some (foldl (merge_entry r idx d0) (load_deps d)
                  (filter (is_changed (index_shards idx) (load_hashes d) (load_deps d))
                     (tracked_names a lhd))),
              tracked_hashes := Some (foldl
                  (\<lambda>nh n. case map_of (index_shards idx) n of None \<Rightarrow> nh
                           | Some h \<Rightarrow> dict_set nh n (hex h)) [] (tracked_names a lhd))\<rparr>)
      \<and> cache_extends r (index_base_url idx) d0 d'"
proof -
  let ?names = "tracked_names a lhd"
  let ?ch = "filter (is_changed (index_shards idx) (load_hashes d) (load_deps d)) ?names"
  have idxd: "\<forall>n\<in>set ?ch. map_of (index_shards idx) n \<noteq> None"
    by (auto dest: is_changed_indexed)
  from fetch_changed_closed_form[OF idxd assms(4), of "load_deps d"] obtain d' where
    f: "fetch_changed r idx ?ch (load_deps d, d)
          = Inr (foldl (merge_entry r idx d0) (load_deps d) ?ch, d')"
    and e: "cache_extends r (index_base_url idx) d0 d'"
    by blast
  have "main r lhd idx a d =
      Inr (\<lparr>rep_changed = ?ch,
            rep_unchanged = length (filter (is_unchanged (index_shards idx) (load_hashes d) (load_deps d)) ?names),
            rep_missing = filter (\<lambda>n. map_of (index_shards idx) n = None) ?names,
            rep_updates = find_updates (load_deps d) (foldl (merge_entry r idx d0) (load_deps d) ?ch)\<rparr>,
           d'\<lparr>deps_cache := Some (foldl (merge_entry r idx d0) (load_deps d) ?ch),
              tracked_hashes := Some (foldl
                  (\<lambda>nh n. case map_of (index_shards idx) n of None \<Rightarrow> nh
                           | Some h \<Rightarrow> dict_set nh n (hex h)) [] ?names)\<rparr>)"
    using assms(1,2,3) f
    by (simp add: main_def Let_def classify_closed_form empty_diff_def)
  with e show ?thesis by blast
qed

lemma main_nothing_to_sync:
  "tracked_names a lhd = [] \<Longrightarrow>
   main r lhd idx a d = Inr (\<lparr>rep_changed = [], rep_unchanged = 0, rep_missing = [], rep_updates = []\<rparr>, d)"
  by (simp add: main_def)

lemma map_of_merge_entry:
  "map_of (merge_entry r idx d0 nd m) n =
     (if n = m then (case fetched_entry r idx d0 m of Some info \<Rightarrow> Some info | None \<Rightarrow> map_of nd n)
      else map_of nd n)"
  by (simp add: merge_entry_def fetched_entry_def map_of_dict_set split: option.splits)

lemma map_of_foldl_merge:
  "map_of (foldl (merge_entry r idx d0) nd names) n =
     (if n \<in> set names
      then (case fetched_entry r idx d0 n of Some info \<Rightarrow> Some info | None \<Rightarrow> map_of nd n)
      else map_of nd n)"
proof (induction names arbitrary: nd)
  case Nil
  show ?case by simp
next
  case (Cons m names)
  show ?case
    by (simp add: Cons.IH map_of_merge_entry split: option.splits)
qed

lemma main_returns:
  "\<exists>rep d'. main r lhd idx a d = Inr (rep, d')
     \<and> (tracked_names a lhd \<noteq> [] \<longrightarrow>
          rep_missing rep = filter (\<lambda>n. map_of (index_shards idx) n = None) (tracked_names a lhd)
          \<and> rep_changed rep
              = filter (is_changed (index_shards idx) (load_hashes d) (load_deps d))
                  (tracked_names a lhd)
          \<and> rep_unchanged rep
              = length (filter (is_unchanged (index_shards idx) (load_hashes d) (load_deps d))
                  (tracked_names a lhd)))"
proof (cases "tracked_names a lhd = []")
  case True
  then show ?thesis by (simp add: main_nothing_to_sync)
next
  case False
  let ?ch = "filter (is_changed (index_shards idx) (load_hashes d) (load_deps d)) (tracked_names a lhd)"
  have idxd: "\<forall>n\<in>set ?ch. map_of (index_shards idx) n \<noteq> None"
    by (auto dest: is_changed_indexed)
  from fetch_changed_closed_form[where r=r and d=d and ?d0.0=d and nd="load_deps d", OF idxd cache_extends_refl] obtain d' where
    f: "fetch_changed r idx ?ch (load_deps d, d)
          = Inr (foldl (merge_entry r idx d) (load_deps d) ?ch, d')"
    by blast
  show ?thesis
    using False f
    by (simp add: main_def Let_def classify_closed_form empty_diff_def)
qed


lemmas sync_eval_defs = main_def tracked_names_def load_deps_def load_hashes_def empty_diff_def
  download_shard_def get_shard_url_def CHANNEL_URL_def cache_file_name_def hex_def hex_byte_def
  hex_digit_def extract_latest_from_shard_def dict_update_def entry_is_empty_def find_updates_def
  ex_index_def ex_args_def ex_disk_def ex_remote_def ex_shard_def


text \<open>
  C4 (as amended). Of the tracked names, the missing ones are those without an entry in
  the shard map of the index; of the others, a name is counted as unchanged when the hash
  of the index is the recorded hash of the name and the local snapshot has an entry for
  the name, and it is changed otherwise. The three classes are disjoint and every tracked
  name falls in one of them. Whatever names are missing, \<open>main\<close> returns, in each of its
  modes, with this classification of the tracked names.
\<close>

theorem classify_diff:
  "missing (classify sm oh od names empty_diff) = filter (\<lambda>n. map_of sm n = None) names
   \<and> changed (classify sm oh od names empty_diff) = filter (is_changed sm oh od) names
   \<and> unchanged (classify sm oh od names empty_diff) = length (filter (is_unchanged sm oh od) names)
   \<and> set (missing (classify sm oh od names empty_diff))
        \<inter> set (changed (classify sm oh od names empty_diff)) = {}
   \<and> set (missing (classify sm oh od names empty_diff))
        \<inter> set (filter (is_unchanged sm oh od) names) = {}
   \<and> set (changed (classify sm oh od names empty_diff))
        \<inter> set (filter (is_unchanged sm oh od) names) = {}
   \<and> length (missing (classify sm oh od names empty_diff))
       + length (changed (classify sm oh od names empty_diff))
       + unchanged (classify sm oh od names empty_diff) = length names
   \<and> (\<exists>rep d'. main r lhd idx a d = Inr (rep, d')
        \<and> (tracked_names a lhd \<noteq> [] \<longrightarrow>
             rep_missing rep
               = filter (\<lambda>n. map_of (index_shards idx) n = None) (tracked_names a lhd)
             \<and> rep_changed rep
                 = filter (is_changed (index_shards idx) (load_hashes d) (load_deps d))
                     (tracked_names a lhd)
             \<and> rep_unchanged rep
                 = length (filter (is_unchanged (index_shards idx) (load_hashes d) (load_deps d))
                     (tracked_names a lhd))))"
proof -
  have m: "missing (classify sm oh od names empty_diff) = filter (\<lambda>n. map_of sm n = None) names"
    by (simp add: classify_closed_form empty_diff_def)
  have c: "changed (classify sm oh od names empty_diff) = filter (is_changed sm oh od) names"
    by (simp add: classify_closed_form empty_diff_def)
  have u: "unchanged (classify sm oh od names empty_diff) = length (filter (is_unchanged sm oh od) names)"
    by (simp add: classify_closed_form empty_diff_def)
  have d1: "set (filter (\<lambda>n. map_of sm n = None) names) \<inter> set (filter (is_changed sm oh od) names) = {}"
    by (auto simp: is_changed_def)
  have d2: "set (filter (\<lambda>n. map_of sm n = None) names) \<inter> set (filter (is_unchanged sm oh od) names) = {}"
    by (auto simp: is_unchanged_def)
  have d3: "set (filter (is_changed sm oh od) names) \<inter> set (filter (is_unchanged sm oh od) names) = {}"
    by (auto simp: is_changed_def is_unchanged_def split: option.splits)
  show ?thesis
    unfolding m c u
    using d1 d2 d3 partition3[of sm names oh od] main_returns[of r lhd idx a d] by blast
qed

text \<open>
  The witness: a sync of \<open>nothere\<close>, which the index does not list, and \<open>zlib\<close>.
\<close>

theorem classify_diff_witness:
  "tracked_names ex_args_missing [] \<noteq> []
   \<and> main (ex_remote ex_shard) [] ex_index ex_args_missing ex_disk
     = Inr (\<lparr>rep_changed = [''zlib''], rep_unchanged = 0, rep_missing = [''nothere''],
             rep_updates = [(''zlib'', ''(new)'', ''1.3'')]\<rparr>,
            \<lparr>shards_dir = True, shard_files = [''ab.msgpack.zst'' \<mapsto> [1]],
             deps_cache = Some [(''zlib'', \<lparr>entry_version = ''1.3'', entry_build_number = 0,
                                            entry_build = ''h0'', entry_depends = []\<rparr>)],
             tracked_hashes = Some [(''zlib'', ''ab'')]\<rparr>)"
proof -
  have a: "tracked_names ex_args_missing [] \<noteq> []"
    by (simp add: tracked_names_def ex_args_missing_def)
  have b: "main (ex_remote ex_shard) [] ex_index ex_args_missing ex_disk
     = Inr (\<lparr>rep_changed = [''zlib''], rep_unchanged = 0, rep_missing = [''nothere''],
             rep_updates = [(''zlib'', ''(new)'', ''1.3'')]\<rparr>,
            \<lparr>shards_dir = True, shard_files = [''ab.msgpack.zst'' \<mapsto> [1]],
             deps_cache = Some [(''zlib'', \<lparr>entry_version = ''1.3'', entry_build_number = 0,
                                            entry_build = ''h0'', entry_depends = []\<rparr>)],
             tracked_hashes = Some [(''zlib'', ''ab'')]\<rparr>)"
    by (simp add: sync_eval_defs ex_args_missing_def version_eval_defs)
  from classify_diff[of "index_shards ex_index" "[]" "[]" "[''nothere'', ''zlib'']"
         "ex_remote ex_shard" "[]" ex_index ex_args_missing ex_disk] a b
  show ?thesis by blast
qed

text \<open>
  With \<open>--list-changed\<close>, \<open>main\<close> returns this classification and leaves the disk as it
  is.
\<close>

lemma main_list_changed:
  assumes "arg_list_changed a" and "tracked_names a lhd \<noteq> []"
  shows "main r lhd idx a d =
     Inr (\<lparr>rep_changed = filter (is_changed (index_shards idx) (load_hashes d) (load_deps d))
                           (tracked_names a lhd),
           rep_unchanged = length (filter (is_unchanged (index_shards idx) (load_hashes d) (load_deps d))
                           (tracked_names a lhd)),
           rep_missing = filter (\<lambda>n. map_of (index_shards idx) n = None) (tracked_names a lhd),
           rep_updates = []\<rparr>, d)"
  using assms by (simp add: main_def Let_def classify_closed_form empty_diff_def)

text \<open>
  C4 as stated says that a name is unchanged when its hash is the recorded one, even if
  the local snapshot lacks an entry for it. For \<open>zlib\<close> with the recorded hash \<open>ab\<close>,
  the same hash in the index and an empty snapshot, the name is classified as changed.
\<close>

theorem classify_recorded_hash_without_snapshot_entry:
  "map_of [(''zlib'', ''ab'')] ''zlib'' = Some (hex [0xAB])
   \<and> changed (classify [(''zlib'', [0xAB])] [(''zlib'', ''ab'')] [] [''zlib''] empty_diff) = [''zlib'']
   \<and> unchanged (classify [(''zlib'', [0xAB])] [(''zlib'', ''ab'')] [] [''zlib''] empty_diff) = 0"
  by (simp add: empty_diff_def hex_def hex_byte_def hex_digit_def)

text \<open>
  C6 (as amended). A full sync (neither \<open>--check\<close> nor \<open>--list-changed\<close>) returns, and
  so does a second one run on the disk the first has left, with the same tracked names,
  index, network answers and decoder. The first run gives each name it classifies as
  changed the entry that downloading, verifying, decoding and reading its shard yields,
  and leaves the entry of the name as it was when that yields none; the other entries
  stay. The second run leaves \<open>deps.json\<close> and \<open>tracked_hashes.json\<close> as the first wrote
  them, and the names it classifies as changed are exactly the tracked names of the index
  that had no entry before the first run and whose shard yields none; a name whose shard
  yields an entry is not fetched again.
\<close>

theorem sync_twice:
  assumes "\<not> arg_check a" and "\<not> arg_list_changed a"
  shows "\<exists>rep1 d1 rep2 d2.
     main r lhd idx a d0 = Inr (rep1, d1) \<and> main r lhd idx a d1 = Inr (rep2, d2)
     \<and> deps_cache d2 = deps_cache d1 \<and> tracked_hashes d2 = tracked_hashes d1
     \<and> rep_changed rep1
         = filter (is_changed (index_shards idx) (load_hashes d0) (load_deps d0))
             (tracked_names a lhd)
     \<and> (\<forall>n. map_of (load_deps d1) n
              = (if n \<in> set (rep_changed rep1)
                 then (case fetched_entry r idx d0 n of
                         Some info \<Rightarrow> Some info
                       | None \<Rightarrow> map_of (load_deps d0) n)
                 else map_of (load_deps d0) n))
     \<and> rep_changed rep2
         = filter (\<lambda>n. map_of (index_shards idx) n \<noteq> None \<and> map_of (load_deps d0) n = None
                       \<and> fetched_entry r idx d0 n = None)
             (tracked_names a lhd)"
proof (cases "tracked_names a lhd = []")
  case True
  then show ?thesis by (simp add: main_nothing_to_sync)
next
  case False
  let ?names = "tracked_names a lhd"
  let ?sm = "index_shards idx"
  let ?base = "index_base_url idx"
  let ?nh = "foldl (\<lambda>nh n. case map_of ?sm n of None \<Rightarrow> nh | Some h \<Rightarrow> dict_set nh n (hex h))
               [] ?names"
  let ?ch1 = "filter (is_changed ?sm (load_hashes d0) (load_deps d0)) ?names"
  let ?nd1 = "foldl (merge_entry r idx d0) (load_deps d0) ?ch1"
  from main_full_sync[where r=r and idx=idx and d=d0 and ?d0.0=d0 and lhd=lhd,
      OF assms False cache_extends_refl]
  obtain d' rep1 where run1: "main r lhd idx a d0
        = Inr (rep1, d'\<lparr>deps_cache := Some ?nd1, tracked_hashes := Some ?nh\<rparr>)"
    and ext1: "cache_extends r ?base d0 d'"
    and rep1: "rep_changed rep1 = ?ch1"
    by (metis (no_types, lifting) report.select_convs(1))
  let ?d1 = "d'\<lparr>deps_cache := Some ?nd1, tracked_hashes := Some ?nh\<rparr>"
  have ld: "load_deps ?d1 = ?nd1" and lh: "load_hashes ?d1 = ?nh"
    by (simp_all add: load_deps_def load_hashes_def)
  have ext1': "cache_extends r ?base d0 ?d1"
    using _ ext1 by (rule cache_extends_files) simp
  let ?ch2 = "filter (is_changed ?sm ?nh ?nd1) ?names"
  have ch2: "?ch2 = filter (\<lambda>n. map_of ?sm n \<noteq> None \<and> map_of ?nd1 n = None) ?names"
  proof (rule filter_cong[OF refl])
    fix n assume n: "n \<in> set ?names"
    show "is_changed ?sm ?nh ?nd1 n = (map_of ?sm n \<noteq> None \<and> map_of ?nd1 n = None)"
    proof (cases "map_of ?sm n")
      case None
      then show ?thesis by (simp add: is_changed_def)
    next
      case (Some h)
      from new_hashes_lookup[OF Some, of "[]" ?names] n
      have "map_of ?nh n = Some (hex h)" by simp
      with Some show ?thesis by (simp add: is_changed_def)
    qed
  qed
  have no_entry: "\<forall>n\<in>set ?ch2. \<forall>h. map_of ?sm n = Some h \<longrightarrow> entry_of r ?base d0 h = None"
  proof (intro ballI allI impI)
    fix n h assume n: "n \<in> set ?ch2" and h: "map_of ?sm n = Some h"
    from n ch2 have nn: "n \<in> set ?names" and none1: "map_of ?nd1 n = None" by auto
    show "entry_of r ?base d0 h = None"
    proof (rule ccontr)
      assume "entry_of r ?base d0 h \<noteq> None"
      then obtain info where info: "entry_of r ?base d0 h = Some info" by auto
      have "map_of (load_deps d0) n = None"
        using none1 foldl_merge_keys_mono[of "load_deps d0" n r idx d0 ?ch1] by blast
      with h have "is_changed ?sm (load_hashes d0) (load_deps d0) n"
        by (simp add: is_changed_def)
      with nn have "n \<in> set ?ch1" by simp
      from foldl_merge_adds[OF this h info] none1 show False by blast
    qed
  qed
  have nd2: "foldl (merge_entry r idx d0) ?nd1 ?ch2 = ?nd1"
    by (rule foldl_merge_nothing[OF no_entry])
  from main_full_sync[where lhd=lhd, OF assms False ext1']
  obtain d'' rep2 where run2: "main r lhd idx a ?d1
        = Inr (rep2, d''\<lparr>deps_cache := Some (foldl (merge_entry r idx d0) (load_deps ?d1)
                            (filter (is_changed ?sm (load_hashes ?d1) (load_deps ?d1)) ?names)),
                         tracked_hashes := Some ?nh\<rparr>)"
    and rep2: "rep_changed rep2 = filter (is_changed ?sm (load_hashes ?d1) (load_deps ?d1)) ?names"
    by (metis (no_types, lifting) report.select_convs(1))
  let ?d2 = "d''\<lparr>deps_cache := Some ?nd1, tracked_hashes := Some ?nh\<rparr>"
  have run2': "main r lhd idx a ?d1 = Inr (rep2, ?d2)"
    using run2 unfolding ld lh nd2 .
  have c3: "deps_cache ?d2 = deps_cache ?d1" by simp
  have c4: "tracked_hashes ?d2 = tracked_hashes ?d1" by simp
  have c5: "\<forall>n. map_of (load_deps ?d1) n
              = (if n \<in> set (rep_changed rep1)
                 then (case fetched_entry r idx d0 n of
                         Some info \<Rightarrow> Some info
                       | None \<Rightarrow> map_of (load_deps d0) n)
                 else map_of (load_deps d0) n)"
    unfolding ld rep1 by (simp add: map_of_foldl_merge)
  have "filter (\<lambda>n. map_of ?sm n \<noteq> None \<and> map_of ?nd1 n = None) ?names
        = filter (\<lambda>n. map_of ?sm n \<noteq> None \<and> map_of (load_deps d0) n = None
                       \<and> fetched_entry r idx d0 n = None) ?names"
    by (rule filter_cong[OF refl])
       (auto simp: map_of_foldl_merge is_changed_def split: option.splits)
  then have c6: "rep_changed rep2
         = filter (\<lambda>n. map_of ?sm n \<noteq> None \<and> map_of (load_deps d0) n = None
                       \<and> fetched_entry r idx d0 n = None) ?names"
    using rep2 ch2 unfolding ld lh by simp
  from run1 run2' c3 c4 rep1 c5 c6 show ?thesis by blast
qed

text \<open>
  C6 as stated says that the second run finds no changed name. With an index that lists
  \<open>zlib\<close> and a shard that holds no package, the first run downloads and stores the
  shard and records its hash without adding an entry to the snapshot; the second run, on
  the same upstream, classifies \<open>zlib\<close> as changed again.
\<close>

theorem sync_twice_still_changed:
  "main (ex_remote \<lparr>shard_packages = [], shard_packages_conda = []\<rparr>) [] ex_index ex_args ex_disk
     = Inr (\<lparr>rep_changed = [''zlib''], rep_unchanged = 0, rep_missing = [], rep_updates = []\<rparr>,
            \<lparr>shards_dir = True, shard_files = [''ab.msgpack.zst'' \<mapsto> [1]],
             deps_cache = Some [], tracked_hashes = Some [(''zlib'', ''ab'')]\<rparr>)
   \<and> main (ex_remote \<lparr>shard_packages = [], shard_packages_conda = []\<rparr>) [] ex_index ex_args
        \<lparr>shards_dir = True, shard_files = [''ab.msgpack.zst'' \<mapsto> [1]],
         deps_cache = Some [], tracked_hashes = Some [(''zlib'', ''ab'')]\<rparr>
     = Inr (\<lparr>rep_changed = [''zlib''], rep_unchanged = 0, rep_missing = [], rep_updates = []\<rparr>,
            \<lparr>shards_dir = True, shard_files = [''ab.msgpack.zst'' \<mapsto> [1]],
             deps_cache = Some [], tracked_hashes = Some [(''zlib'', ''ab'')]\<rparr>)"
  by (simp add: sync_eval_defs)

text \<open>
  With a shard that holds a package, the second run finds the name unchanged.
\<close>

theorem sync_twice_witness:
  "\<not> arg_check ex_args \<and> \<not> arg_list_changed ex_args
   \<and> fetched_entry (ex_remote ex_shard) ex_index ex_disk ''zlib''
       = Some \<lparr>entry_version = ''1.3'', entry_build_number = 0, entry_build = ''h0'',
               entry_depends = []\<rparr>
   \<and> main (ex_remote ex_shard) [] ex_index ex_args ex_disk
     = Inr (\<lparr>rep_changed = [''zlib''], rep_unchanged = 0, rep_missing = [],
             rep_updates = [(''zlib'', ''(new)'', ''1.3'')]\<rparr>,
            \<lparr>shards_dir = True, shard_files = [''ab.msgpack.zst'' \<mapsto> [1]],
             deps_cache = Some [(''zlib'', \<lparr>entry_version = ''1.3'', entry_build_number = 0,
                                            entry_build = ''h0'', entry_depends = []\<rparr>)],
             tracked_hashes = Some [(''zlib'', ''ab'')]\<rparr>)
   \<and> main (ex_remote ex_shard) [] ex_index ex_args
        \<lparr>shards_dir = True, shard_files = [''ab.msgpack.zst'' \<mapsto> [1]],
         deps_cache = Some [(''zlib'', \<lparr>entry_version = ''1.3'', entry_build_number = 0,
                                        entry_build = ''h0'', entry_depends = []\<rparr>)],
         tracked_hashes = Some [(''zlib'', ''ab'')]\<rparr>
     = Inr (\<lparr>rep_changed = [], rep_unchanged = 1, rep_missing = [], rep_updates = []\<rparr>,
            \<lparr>shards_dir = True, shard_files = [''ab.msgpack.zst'' \<mapsto> [1]],
             deps_cache = Some [(''zlib'', \<lparr>entry_version = ''1.3'', entry_build_number = 0,
                                            entry_build = ''h0'', entry_depends = []\<rparr>)],
             tracked_hashes = Some [(''zlib'', ''ab'')]\<rparr>)"
proof -
  have a: "\<not> arg_check ex_args" and b: "\<not> arg_list_changed ex_args"
    by (simp_all add: ex_args_def)
  have f: "fetched_entry (ex_remote ex_shard) ex_index ex_disk ''zlib''
       = Some \<lparr>entry_version = ''1.3'', entry_build_number = 0, entry_build = ''h0'',
               entry_depends = []\<rparr>"
    by (simp add: fetched_entry_def entry_of_def sync_eval_defs version_eval_defs)
  have one: "main (ex_remote ex_shard) [] ex_index ex_args ex_disk
     = Inr (\<lparr>rep_changed = [''zlib''], rep_unchanged = 0, rep_missing = [],
             rep_updates = [(''zlib'', ''(new)'', ''1.3'')]\<rparr>,
            \<lparr>shards_dir = True, shard_files = [''ab.msgpack.zst'' \<mapsto> [1]],
             deps_cache = Some [(''zlib'', \<lparr>entry_version = ''1.3'', entry_build_number = 0,
                                            entry_build = ''h0'', entry_depends = []\<rparr>)],
             tracked_hashes = Some [(''zlib'', ''ab'')]\<rparr>)"
    by (simp add: sync_eval_defs version_eval_defs)
  from sync_twice[OF a b, of "ex_remote ex_shard" "[]" ex_index ex_disk]
  obtain rep1 d1 rep2 d2 where
    r1: "main (ex_remote ex_shard) [] ex_index ex_args ex_disk = Inr (rep1, d1)"
    and r2: "main (ex_remote ex_shard) [] ex_index ex_args d1 = Inr (rep2, d2)"
    and same: "deps_cache d2 = deps_cache d1" "tracked_hashes d2 = tracked_hashes d1"
    and ch: "rep_changed rep2
         = filter (\<lambda>n. map_of (index_shards ex_index) n \<noteq> None
                       \<and> map_of (load_deps ex_disk) n = None
                       \<and> fetched_entry (ex_remote ex_shard) ex_index ex_disk n = None)
             (tracked_names ex_args [])"
    by blast
  from ch f have none: "rep_changed rep2 = []"
    by (simp add: tracked_names_def ex_args_def)
  from one r1 have d1: "d1 = \<lparr>shards_dir = True, shard_files = [''ab.msgpack.zst'' \<mapsto> [1]],
             deps_cache = Some [(''zlib'', \<lparr>entry_version = ''1.3'', entry_build_number = 0,
                                            entry_build = ''h0'', entry_depends = []\<rparr>)],
             tracked_hashes = Some [(''zlib'', ''ab'')]\<rparr>" by simp
  have two: "main (ex_remote ex_shard) [] ex_index ex_args
        \<lparr>shards_dir = True, shard_files = [''ab.msgpack.zst'' \<mapsto> [1]],
         deps_cache = Some [(''zlib'', \<lparr>entry_version = ''1.3'', entry_build_number = 0,
                                        entry_build = ''h0'', entry_depends = []\<rparr>)],
         tracked_hashes = Some [(''zlib'', ''ab'')]\<rparr>
     = Inr (\<lparr>rep_changed = [], rep_unchanged = 1, rep_missing = [], rep_updates = []\<rparr>,
            \<lparr>shards_dir = True, shard_files = [''ab.msgpack.zst'' \<mapsto> [1]],
             deps_cache = Some [(''zlib'', \<lparr>entry_version = ''1.3'', entry_build_number = 0,
                                            entry_build = ''h0'', entry_depends = []\<rparr>)],
             tracked_hashes = Some [(''zlib'', ''ab'')]\<rparr>)"
    by (simp add: sync_eval_defs version_eval_defs)
  from a b f one two none r2 d1 show ?thesis by blast
qed

end
